theory Spec2Isabelle
  imports Complex_Main "HOL-Library.Word"
begin

unbundle bit_operations_syntax

section \<open>Data model\<close>

text \<open>
  The chat server (the compiled \<open>server/src/index\<close>, lines 182--487 of
  \<open>src/server/verify_session.js\<close>) keeps two in-memory maps and talks to a store
  with the tables of the migration (lines 99--181). Strings are lists of code units; timestamps
  are milliseconds; the writes of the store fail only on a missing row, a duplicate primary key
  or a foreign key without its row. Two functions of the JavaScript library are parameters:
  the MD5 digest (\<open>md5\<close>) and \<open>String.prototype.toUpperCase\<close> (\<open>toUpper\<close>).
\<close>

datatype assignment = CONTROL | TREATMENT

datatype job_status = PENDING | PROCESSING | DONE | FAILED

record user_row =
  u_id :: string
  u_nickname :: string
  u_assignment :: assignment
  u_createdAt :: int
  u_lastSeenAt :: "int option"

record session_row =
  s_id :: nat
  s_userId :: string
  s_startedAt :: int
  s_endedAt :: "int option"
  s_durationSec :: "int option"

record message_row =
  m_id :: string
  m_userId :: string
  m_nicknameSnapshot :: string
  m_text :: string
  m_createdAt :: int
  m_mood :: string
  m_intensity :: real
  m_seed :: "string option"
  m_moodUpdatedAt :: "int option"

record inference_job =
  j_id :: nat
  j_messageId :: string
  j_status :: job_status
  j_attempts :: nat
  j_lastError :: "string option"
  j_createdAt :: int
  j_updatedAt :: int

text \<open>The entries of \<open>connectedClients\<close> and of
    \<open>rateLimits\<close>.\<close>

record client_data =
  c_userId :: string
  c_nickname :: string
  c_assignment :: assignment
  c_sessionId :: nat

record limit_data =
  l_count :: nat
  l_startTime :: int

type_synonym socket_id = string

text \<open>
  A JavaScript \<open>Map\<close> whose iteration order matters: the entries in insertion order;
  \<open>set\<close> on a key that is present replaces the value where it stands.
\<close>

type_synonym ('k, 'v) js_map = "('k \<times> 'v) list"

fun Map_set :: "'k \<Rightarrow> 'v \<Rightarrow> ('k, 'v) js_map \<Rightarrow> ('k, 'v) js_map"
    where
  "Map_set k v [] = [(k, v)]"
| "Map_set k v ((k', v') # m) = (if k' = k then (k, v) # m else (k', v') # Map_set k v m)"

definition Map_get :: "('k, 'v) js_map \<Rightarrow> 'k \<Rightarrow> 'v option" where
  "Map_get m k = map_of m k"

definition Map_delete :: "'k \<Rightarrow> ('k, 'v) js_map \<Rightarrow> ('k, 'v) js_map" where
  "Map_delete k m = filter (\<lambda>e. fst e \<noteq> k) m"

definition Map_values :: "('k, 'v) js_map \<Rightarrow> 'v list" where
  "Map_values m = map snd m"

record server_state =
  users :: "string \<rightharpoonup> user_row"
  sessions :: "session_row list"
  messages :: "message_row list"
  jobs :: "inference_job list"
  connectedClients :: "(socket_id, client_data) js_map"
  rateLimits :: "string \<rightharpoonup> limit_data"

definition initial_state :: server_state where
  "initial_state = \<lparr>users = Map.empty, sessions = [], messages = [], jobs = [],
     connectedClients = [], rateLimits = Map.empty\<rparr>"

subsection \<open>What the server emits\<close>

record online_user =
  ou_userId :: string
  ou_nickname :: string
  ou_assignment :: assignment

record messageDTO =
  dto_id :: string
  dto_userId :: string
  dto_nicknameSnapshot :: string
  dto_text :: string
  dto_createdAt :: int
  dto_mood :: string
  dto_intensity :: real

datatype json = JString string | JNumber int

text \<open>
  The acknowledgement is modelled without the replayed history \<open>lastMessages\<close>, a
  read of the message table. \<open>Message_mood_updated\<close> is the
  \<open>message:mood_updated\<close> event of the protocol (Specification, 10.2). The two error
  events carry their payload object as a list of fields.
\<close>

datatype server_event =
    Session_ack string string assignment "online_user list"
  | Presence_update "online_user list"
  | Message_new messageDTO
  | Message_mood_updated string string real
  | Error_invalid_payload "(string \<times> json) list"
  | Error_rate_limited "(string \<times> json) list"

datatype emit = To_socket socket_id server_event | To_all server_event

fun payload_field :: "emit \<Rightarrow> string \<Rightarrow> json option" where
  "payload_field (To_socket sid (Error_invalid_payload p)) f = map_of p f"
| "payload_field (To_socket sid (Error_rate_limited p)) f = map_of p f"
| "payload_field e f = None"

section \<open>Payload validation (the zod schemas)\<close>

text \<open>
  \<open>String.prototype.trim\<close> on code units below 256: the white space and line
  terminators.
\<close>

definition is_space :: "char \<Rightarrow> bool" where
  "is_space c = (c \<in> set [CHR 0x09, CHR 0x0A, CHR 0x0B, CHR 0x0C, CHR 0x0D, CHR 0x20, CHR
      0xA0])"

definition trim :: "string \<Rightarrow> string" where
  "trim s = rev (dropWhile is_space (rev (dropWhile is_space s)))"

definition is_hex :: "char \<Rightarrow> bool" where
  "is_hex c = (c \<in> set ''0123456789abcdefABCDEF'')"

text \<open>The shape zod's \<open>uuid()\<close> accepts: hexadecimal groups of 8, 4, 4, 4 and
  12.\<close>

fun uuid_groups :: "nat list \<Rightarrow> string \<Rightarrow> bool" where
  "uuid_groups [] s = False"
| "uuid_groups [n] s = (length s = n \<and> list_all is_hex s)"
| "uuid_groups (n # ns) s =
     (length (take n s) = n \<and> list_all is_hex (take n s) \<and>
      (case drop n s of [] \<Rightarrow> False | c # r \<Rightarrow> c = CHR ''-'' \<and>
          uuid_groups ns r))"

definition is_uuid :: "string \<Rightarrow> bool" where
  "is_uuid s = uuid_groups [8, 4, 4, 4, 12] s"

text \<open>
  A zod string schema is a list of checks, run in the order they were chained: each check sees
  the value the previous ones left, \<open>trim\<close> replaces the value, and the parse
  succeeds when no check has raised an issue.
\<close>

datatype zod_check = ZMin nat | ZMax nat | ZTrim | ZUuid

fun run_check :: "bool \<times> string \<Rightarrow> zod_check \<Rightarrow> bool \<times> string"
    where
  "run_check (ok, d) (ZMin n) = (ok \<and> n \<le> length d, d)"
| "run_check (ok, d) (ZMax n) = (ok \<and> length d \<le> n, d)"
| "run_check (ok, d) ZTrim = (ok, trim d)"
| "run_check (ok, d) ZUuid = (ok \<and> is_uuid d, d)"

text \<open>The input is \<open>None\<close> when the field is absent or not a string.\<close>

definition zod_string :: "zod_check list \<Rightarrow> string option \<Rightarrow> string option"
    where
  "zod_string checks input =
     (case input of
        None \<Rightarrow> None
      | Some s \<Rightarrow> (case foldl run_check (True, s) checks of (ok, d) \<Rightarrow> if ok
          then Some d else None))"

record session_start_payload =
  ssp_userId :: "string option"
  ssp_nickname :: "string option"

record session_start_data =
  ssd_userId :: string
  ssd_nickname :: string

record message_send_payload =
  msp_userId :: "string option"
  msp_text :: "string option"

record message_send_data =
  msd_userId :: string
  msd_text :: string

definition SessionStartSchema :: "session_start_payload \<Rightarrow> session_start_data option"
    where
  "SessionStartSchema payload =
     (case zod_string [ZUuid] (ssp_userId payload) of
        None \<Rightarrow> None
      | Some userId \<Rightarrow>
          (case zod_string [ZMin 1, ZMax 20, ZTrim] (ssp_nickname payload) of
             None \<Rightarrow> None
           | Some nickname \<Rightarrow> Some \<lparr>ssd_userId = userId, ssd_nickname =
               nickname\<rparr>))"

definition MessageSendSchema :: "message_send_payload \<Rightarrow> message_send_data option"
    where
  "MessageSendSchema payload =
     (case zod_string [ZUuid] (msp_userId payload) of
        None \<Rightarrow> None
      | Some userId \<Rightarrow>
          (case zod_string [ZMin 1, ZTrim] (msp_text payload) of
             None \<Rightarrow> None
           | Some text \<Rightarrow> Some \<lparr>msd_userId = userId, msd_text = text\<rparr>))"

section \<open>Deterministic assignment\<close>

definition hex_digit :: "char \<Rightarrow> nat option" where
  "hex_digit c = map_of (zip ''0123456789abcdefABCDEF''
                   [0, 1, 2, 3, 4, 5, 6, 7, 8, 9, 10, 11, 12, 13, 14, 15, 10, 11, 12, 13, 14, 15])
                       c"

text \<open>\<open>parseInt(s, 16)\<close> on a string of at most one character;
  \<open>None\<close> is \<open>NaN\<close>.\<close>

definition parseInt16 :: "string \<Rightarrow> nat option" where
  "parseInt16 s = (case s of [] \<Rightarrow> None | c # _ \<Rightarrow> hex_digit c)"

text \<open>
  The server's \<open>getAssignment\<close>. The digest \<open>md5\<close> is the library's
  \<open>createHash('md5').update(userId).digest('hex')\<close>, a parameter here. \<open>NaN %
  2 === 0\<close> is false.
\<close>

definition getAssignment :: "(string \<Rightarrow> string) \<Rightarrow> string \<Rightarrow>
    assignment" where
  "getAssignment md5 userId =
     (let hash = md5 userId;
          firstChar = parseInt16 (take 1 hash)
      in if (case firstChar of None \<Rightarrow> False | Some n \<Rightarrow> n mod 2 = 0) then
          CONTROL else TREATMENT)"

text \<open>
  The client's \<open>getAssignment\<close> (\<open>client/src/lib/ab-testing.ts\<close>). The
  first argument is what \<open>localStorage.getItem('vn_assignment_override')\<close> returns.
  The loop keeps a 32-bit integer: \<open>hash |= 0\<close> after \<open>((hash << 5) - hash) +
  charCode\<close>.
\<close>

definition hash_step :: "32 word \<Rightarrow> char \<Rightarrow> 32 word" where
  "hash_step hash c = (push_bit 5 hash - hash) + of_nat (of_char c)"

definition client_hash :: "string \<Rightarrow> 32 word" where
  "client_hash userId = foldl hash_step 0 userId"

definition client_getAssignment :: "string option \<Rightarrow> string \<Rightarrow> assignment"
    where
  "client_getAssignment override userId =
     (if override = Some ''CONTROL'' then CONTROL
      else if override = Some ''TREATMENT'' then TREATMENT
      else if userId = [] then CONTROL
      else if \<bar>sint (client_hash userId)\<bar> mod 2 = 1 then TREATMENT else CONTROL)"

section \<open>Presence\<close>

definition getOnlineUsers :: "(socket_id, client_data) js_map \<Rightarrow> online_user list"
    where
  "getOnlineUsers clients =
     (let uniqueUsersMap =
            foldl (\<lambda>m client. Map_set (c_userId client)
                     \<lparr>ou_userId = c_userId client, ou_nickname = c_nickname client,
                      ou_assignment = c_assignment client\<rparr> m)
                  [] (Map_values clients)
      in map (\<lambda>u. \<lparr>ou_userId = ou_userId u, ou_nickname = ou_nickname u,
                   ou_assignment = ou_assignment u\<rparr>) (Map_values uniqueUsersMap))"

section \<open>The socket handlers\<close>

text \<open>
  Each handler is first written as it runs when no other handler comes between its
  \<open>await\<close>s and the clock stands still meanwhile: one function from the state at its
  event to the state at its end, with what it emits. The section on overlapping handlers
  has the same code cut at its \<open>await\<close>s.
\<close>

definition RATE_LIMIT_WINDOW_MS :: int where
  "RATE_LIMIT_WINDOW_MS = 5000"

definition RATE_LIMIT_MAX_MESSAGES :: nat where
  "RATE_LIMIT_MAX_MESSAGES = 5"

subsection \<open>\<open>session:start\<close>\<close>

text \<open>
  \<open>prisma.session.findFirst\<close> with \<open>userId\<close> and \<open>endedAt:
  null\<close>, and \<open>prisma.session.create\<close>, whose key is the next autoincrement
  value (rows are never deleted).
\<close>

definition findOpenSession :: "string \<Rightarrow> session_row list \<Rightarrow> session_row
    option" where
  "findOpenSession userId rows = find (\<lambda>r. s_userId r = userId \<and> s_endedAt r = None)
      rows"

definition createSession :: "string \<Rightarrow> int \<Rightarrow> session_row list \<Rightarrow>
    session_row" where
  "createSession userId now rows =
     \<lparr>s_id = Suc (length rows), s_userId = userId, s_startedAt = now, s_endedAt = None,
      s_durationSec = None\<rparr>"

definition upsertUser :: "string \<Rightarrow> string \<Rightarrow> assignment \<Rightarrow> int
    \<Rightarrow> (string \<rightharpoonup> user_row)
    \<Rightarrow> (string \<rightharpoonup> user_row)" where
  "upsertUser userId nickname assignment now tbl =
     (case tbl userId of
        Some u \<Rightarrow> tbl(userId \<mapsto> u\<lparr>u_nickname := nickname, u_lastSeenAt :=
            Some now\<rparr>)
      | None \<Rightarrow> tbl(userId \<mapsto> \<lparr>u_id = userId, u_nickname = nickname,
          u_assignment = assignment,
                                u_createdAt = now, u_lastSeenAt = Some now\<rparr>))"

definition session_start :: "(string \<Rightarrow> string) \<Rightarrow> socket_id \<Rightarrow>
    session_start_payload \<Rightarrow> int
    \<Rightarrow> server_state \<Rightarrow> server_state \<times> emit list" where
  "session_start md5 socket payload now st =
     (case SessionStartSchema payload of
        None \<Rightarrow>
          (st, [To_socket socket
                  (Error_invalid_payload [(''message'', JString
                      ''Invalid payload for session:start'')])])
      | Some d \<Rightarrow>
          (let userId = ssd_userId d;
               nickname = ssd_nickname d;
               assignment = getAssignment md5 userId;
               users' = upsertUser userId nickname assignment now (users st);
               (session, sessions') =
                 (case findOpenSession userId (sessions st) of
                    None \<Rightarrow> (createSession userId now (sessions st),
                              sessions st @ [createSession userId now (sessions st)])
                  | Some r \<Rightarrow> (r, sessions st));
               clients' = Map_set socket
                            \<lparr>c_userId = userId, c_nickname = nickname, c_assignment =
                                assignment,
                             c_sessionId = s_id session\<rparr> (connectedClients st);
               onlineUsers = getOnlineUsers clients'
           in (st\<lparr>users := users', sessions := sessions', connectedClients :=
               clients'\<rparr>,
               [To_socket socket (Session_ack userId nickname assignment onlineUsers),
                To_all (Presence_update onlineUsers)])))"

subsection \<open>\<open>message:send\<close>\<close>

text \<open>
  The rate limit check (lines 377--388): the entry after the check, or \<open>None\<close> when
  the send is refused.
\<close>

definition rate_limit_check :: "limit_data option \<Rightarrow> int \<Rightarrow> limit_data
    option" where
  "rate_limit_check entry now =
     (let limitData =
            (case entry of
               None \<Rightarrow> \<lparr>l_count = 0, l_startTime = now\<rparr>
             | Some l \<Rightarrow> if now - l_startTime l > RATE_LIMIT_WINDOW_MS
                         then \<lparr>l_count = 0, l_startTime = now\<rparr> else l)
      in if l_count limitData \<ge> RATE_LIMIT_MAX_MESSAGES then None
         else Some (limitData\<lparr>l_count := l_count limitData + 1\<rparr>))"

text \<open>
  Successive sends of one user at the given times, as the handler threads the user's entry of
  \<open>rateLimits\<close>: an admitted send stores the entry the check returned (line 388), a
  refused send returns before storing anything.
\<close>

fun admitted_sends :: "limit_data option \<Rightarrow> int list \<Rightarrow> bool list" where
  "admitted_sends entry [] = []"
| "admitted_sends entry (now # later) =
     (case rate_limit_check entry now of
        None \<Rightarrow> False # admitted_sends entry later
      | Some limitData \<Rightarrow> True # admitted_sends (Some limitData) later)"

text \<open>
  What the call to the classifier gave: \<open>fetch\<close> or \<open>response.json()\<close>
  threw, the response was not ok, or it was ok with a body whose \<open>mood\<close> is a string
  (\<open>None\<close> otherwise, where \<open>data.mood.toUpperCase()\<close> throws) and whose
  \<open>intensity\<close> is a number.
\<close>

datatype infer_outcome = Call_throws | Response_not_ok | Response_ok "string option" real

definition infer_mood :: "(string \<Rightarrow> string) \<Rightarrow> infer_outcome \<Rightarrow> string \<times> real" where
  "infer_mood toUpper r =
     (case r of
        Response_ok (Some mood) intensity \<Rightarrow> (toUpper mood, intensity)
      | _ \<Rightarrow> (''NEUTRAL'', 0))"

text \<open>
  \<open>messageId\<close> is what \<open>uuidv4()\<close> returned.
  \<open>prisma.message.create\<close> throws on a key already in the table or a user without a
  row, and the handler's \<open>catch\<close> ends it there, after the rate window was stored.
\<close>

definition message_send :: "(string \<Rightarrow> string) \<Rightarrow> socket_id \<Rightarrow> message_send_payload \<Rightarrow> int
    \<Rightarrow> string \<Rightarrow> infer_outcome \<Rightarrow> server_state \<Rightarrow> server_state \<times> emit list" where
  "message_send toUpper socket payload now messageId infer st =
     (case Map_get (connectedClients st) socket of
        None \<Rightarrow> (st, [])
      | Some clientData \<Rightarrow>
          (let userId = c_userId clientData in
           case MessageSendSchema payload of
             None \<Rightarrow>
               (st, [To_socket socket (Error_invalid_payload [(''message'', JString
                   ''Invalid payload'')])])
           | Some d \<Rightarrow>
               if msd_userId d \<noteq> userId
               then (st, [To_socket socket
                            (Error_invalid_payload [(''message'', JString
                                ''User ID mismatch'')])])
               else
                 (case rate_limit_check (rateLimits st userId) now of
                    None \<Rightarrow>
                      (st, [To_socket socket
                              (Error_rate_limited
                                 [(''message'', JString ''Too many messages. Please wait.'')])])
                  | Some limitData \<Rightarrow>
                      (let st1 = st\<lparr>rateLimits := (rateLimits st)(userId \<mapsto>
                          limitData)\<rparr>;
                           text = msd_text d;
                           (mood, intensity) = infer_mood toUpper infer
                       in case users st1 userId of
                            None \<Rightarrow> (st1, [])
                          | Some u \<Rightarrow>
                              if messageId \<in> set (map m_id (messages st1)) then (st1, [])
                              else
                                (let savedMessage =
                                       \<lparr>m_id = messageId, m_userId = userId,
                                        m_nicknameSnapshot = c_nickname clientData, m_text = text,
                                        m_createdAt = now, m_mood = mood, m_intensity = intensity,
                                        m_seed = None, m_moodUpdatedAt = None\<rparr>;
                                     messageDTO =
                                       \<lparr>dto_id = m_id savedMessage, dto_userId = m_userId
                                           savedMessage,
                                        dto_nicknameSnapshot = m_nicknameSnapshot savedMessage,
                                        dto_text = m_text savedMessage,
                                        dto_createdAt = m_createdAt savedMessage,
                                        dto_mood = m_mood savedMessage,
                                        dto_intensity = m_intensity savedMessage\<rparr>
                                 in (st1\<lparr>messages := messages st1 @ [savedMessage],
                                         users := (users st1)(userId \<mapsto>
                                             u\<lparr>u_lastSeenAt := Some now\<rparr>)\<rparr>,
                                     [To_all (Message_new messageDTO)]))))))"

subsection \<open>\<open>disconnect\<close>\<close>

text \<open>
  \<open>prisma.session.update\<close> by key writes \<open>endedAt\<close> only; it throws when
  the row is missing, which skips the update of the user.
\<close>

definition closeSession :: "nat \<Rightarrow> int \<Rightarrow> session_row list \<Rightarrow>
    session_row list" where
  "closeSession sessionId now rows =
     map (\<lambda>r. if s_id r = sessionId then r\<lparr>s_endedAt := Some now\<rparr> else r)
         rows"

definition disconnect :: "socket_id \<Rightarrow> int \<Rightarrow> server_state \<Rightarrow>
    server_state \<times> emit list" where
  "disconnect socket now st =
     (case Map_get (connectedClients st) socket of
        None \<Rightarrow> (st, [])
      | Some clientData \<Rightarrow>
          (let userId = c_userId clientData;
               sessionId = c_sessionId clientData;
               clients' = Map_delete socket (connectedClients st);
               remainingConnections = length (filter (\<lambda>client. c_userId client = userId)
                                                (Map_values clients'));
               st1 = st\<lparr>connectedClients := clients'\<rparr>;
               st2 =
                 (if remainingConnections = 0 \<and> sessionId \<noteq> 0
                  then (if sessionId \<in> set (map s_id (sessions st1))
                        then (let st' = st1\<lparr>sessions := closeSession sessionId now
                            (sessions st1)\<rparr>
                              in case users st' userId of
                                   None \<Rightarrow> st'
                                 | Some u \<Rightarrow> st'\<lparr>users := (users st')(userId
                                     \<mapsto> u\<lparr>u_lastSeenAt := Some now\<rparr>)\<rparr>)
                        else st1)
                  else st1)
           in (st2, [To_all (Presence_update (getOnlineUsers clients'))])))"

subsection \<open>The events\<close>

datatype client_event =
    Session_start socket_id session_start_payload int
  | Message_send socket_id message_send_payload int string infer_outcome
  | Disconnect socket_id int

text \<open>
  The handler of an event, run from the event to its end with nothing in between.
\<close>

fun step :: "(string \<Rightarrow> string) \<Rightarrow> (string \<Rightarrow> string) \<Rightarrow> client_event \<Rightarrow> server_state
    \<Rightarrow> server_state \<times> emit list" where
  "step md5 toUpper (Session_start socket payload now) st =
     session_start md5 socket payload now st"
| "step md5 toUpper (Message_send socket payload now messageId infer) st =
     message_send toUpper socket payload now messageId infer st"
| "step md5 toUpper (Disconnect socket now) st = disconnect socket now st"

definition open_sessions :: "string \<Rightarrow> server_state \<Rightarrow> session_row list" where
  "open_sessions userId st =
     filter (\<lambda>r. s_userId r = userId \<and> s_endedAt r = None) (sessions st)"

section \<open>Handlers that overlap\<close>

text \<open>
  The handlers are \<open>async\<close>. A handler runs from its event to its first \<open>await\<close>,
  where it issues an operation and yields; the operation takes effect at some later moment,
  and at a moment after that the handler continues to its next \<open>await\<close> or to its end.
  Between these moments other handlers do the same, so a run of the server is a sequence of
  three kinds of action: an event is delivered, the pending operation of a handler
  completes, a handler with a completed operation resumes. Every action carries the reading
  of the clock at its moment. Two awaited reads that follow each other with no code between
  them are one operation here: the two \<open>message.findMany\<close> of the history, and
  \<open>fetch\<close> with \<open>response.json()\<close>.
\<close>

datatype operation =
    Upsert_user string string assignment int
  | Find_open_session string
  | Create_session string int
  | Find_messages
  | Call_classifier infer_outcome
  | Create_message string string string string string real
  | Update_user_lastSeenAt string int
  | Update_session_endedAt nat int

datatype outcome =
    Threw
  | Returned
  | Returned_session "session_row option"
  | Returned_created session_row
  | Returned_response infer_outcome
  | Returned_message message_row

text \<open>
  An operation taking effect on the store at the time \<open>clock\<close>: \<open>createdAt\<close> defaults to
  that time; a create throws on a foreign key without its row or a key already present, an
  update by key throws when the row is missing.
\<close>

fun perform :: "operation \<Rightarrow> int \<Rightarrow> server_state \<Rightarrow> server_state \<times> outcome" where
  "perform (Upsert_user userId nickname assignment lastSeenAt) clock st =
     (st\<lparr>users :=
          (case users st userId of
             Some u \<Rightarrow>
               (users st)(userId \<mapsto> u\<lparr>u_nickname := nickname, u_lastSeenAt := Some lastSeenAt\<rparr>)
           | None \<Rightarrow>
               (users st)(userId \<mapsto>
                  \<lparr>u_id = userId, u_nickname = nickname, u_assignment = assignment,
                   u_createdAt = clock, u_lastSeenAt = Some lastSeenAt\<rparr>))\<rparr>,
      Returned)"
| "perform (Find_open_session userId) clock st =
     (st, Returned_session (findOpenSession userId (sessions st)))"
| "perform (Create_session userId startedAt) clock st =
     (if users st userId = None then (st, Threw)
      else (st\<lparr>sessions := sessions st @ [createSession userId startedAt (sessions st)]\<rparr>,
            Returned_created (createSession userId startedAt (sessions st))))"
| "perform Find_messages clock st = (st, Returned)"
| "perform (Call_classifier infer) clock st = (st, Returned_response infer)"
| "perform (Create_message messageId userId nicknameSnapshot text mood intensity) clock st =
     (if users st userId = None \<or> messageId \<in> set (map m_id (messages st)) then (st, Threw)
      else (st\<lparr>messages := messages st @
                 [\<lparr>m_id = messageId, m_userId = userId, m_nicknameSnapshot = nicknameSnapshot,
                   m_text = text, m_createdAt = clock, m_mood = mood, m_intensity = intensity,
                   m_seed = None, m_moodUpdatedAt = None\<rparr>]\<rparr>,
            Returned_message
              \<lparr>m_id = messageId, m_userId = userId, m_nicknameSnapshot = nicknameSnapshot,
               m_text = text, m_createdAt = clock, m_mood = mood, m_intensity = intensity,
               m_seed = None, m_moodUpdatedAt = None\<rparr>))"
| "perform (Update_user_lastSeenAt userId lastSeenAt) clock st =
     (case users st userId of
        None \<Rightarrow> (st, Threw)
      | Some u \<Rightarrow>
          (st\<lparr>users := (users st)(userId \<mapsto> u\<lparr>u_lastSeenAt := Some lastSeenAt\<rparr>)\<rparr>, Returned))"
| "perform (Update_session_endedAt sessionId endedAt) clock st =
     (if sessionId \<in> set (map s_id (sessions st))
      then (st\<lparr>sessions := closeSession sessionId endedAt (sessions st)\<rparr>, Returned)
      else (st, Threw))"

text \<open>
  Where a handler waits, with the locals it still needs: after the upsert, the
  \<open>findFirst\<close>, the \<open>create\<close> and the history reads of \<open>session:start\<close>; after the
  classifier call, the \<open>message.create\<close> and the \<open>user.update\<close> of \<open>message:send\<close>;
  after the \<open>session.update\<close> and the \<open>user.update\<close> of \<open>disconnect\<close>.
\<close>

datatype continuation =
    Start_after_upsert socket_id string string assignment
  | Start_after_findFirst socket_id string string assignment
  | Start_after_create socket_id string string assignment
  | Start_after_history socket_id string string assignment
  | Send_after_classifier client_data string string
  | Send_after_create string
  | Send_after_update message_row
  | Disconnect_after_session_update string int
  | Disconnect_after_user_update

type_synonym next_await = "(operation \<times> continuation) option"

text \<open>
  The code of a handler from its event to its first \<open>await\<close>: the new state, what it emits,
  and the operation it issues with the place where it waits (\<open>None\<close> when the handler has
  ended). In \<open>message:send\<close> the rate window is checked and stored before the first
  \<open>await\<close>; in \<open>disconnect\<close> the connection is removed and counted before it.
\<close>

fun deliver :: "(string \<Rightarrow> string) \<Rightarrow> client_event \<Rightarrow> server_state
    \<Rightarrow> server_state \<times> emit list \<times> next_await" where
  "deliver md5 (Session_start socket payload now) st =
     (case SessionStartSchema payload of
        None \<Rightarrow>
          (st, [To_socket socket
                  (Error_invalid_payload [(''message'', JString ''Invalid payload for session:start'')])],
           None)
      | Some d \<Rightarrow>
          (let userId = ssd_userId d;
               nickname = ssd_nickname d;
               assignment = getAssignment md5 userId
           in (st, [], Some (Upsert_user userId nickname assignment now,
                            Start_after_upsert socket userId nickname assignment))))"
| "deliver md5 (Message_send socket payload now messageId infer) st =
     (case Map_get (connectedClients st) socket of
        None \<Rightarrow> (st, [], None)
      | Some clientData \<Rightarrow>
          (let userId = c_userId clientData in
           case MessageSendSchema payload of
             None \<Rightarrow>
               (st, [To_socket socket (Error_invalid_payload [(''message'', JString ''Invalid payload'')])],
                None)
           | Some d \<Rightarrow>
               if msd_userId d \<noteq> userId
               then (st, [To_socket socket
                            (Error_invalid_payload [(''message'', JString ''User ID mismatch'')])],
                     None)
               else
                 (case rate_limit_check (rateLimits st userId) now of
                    None \<Rightarrow>
                      (st, [To_socket socket
                              (Error_rate_limited
                                 [(''message'', JString ''Too many messages. Please wait.'')])],
                       None)
                  | Some limitData \<Rightarrow>
                      (st\<lparr>rateLimits := (rateLimits st)(userId \<mapsto> limitData)\<rparr>, [],
                       Some (Call_classifier infer,
                             Send_after_classifier clientData (msd_text d) messageId)))))"
| "deliver md5 (Disconnect socket now) st =
     (case Map_get (connectedClients st) socket of
        None \<Rightarrow> (st, [], None)
      | Some clientData \<Rightarrow>
          (let userId = c_userId clientData;
               sessionId = c_sessionId clientData;
               clients' = Map_delete socket (connectedClients st);
               remainingConnections = length (filter (\<lambda>client. c_userId client = userId)
                                                (Map_values clients'));
               st1 = st\<lparr>connectedClients := clients'\<rparr>
           in if remainingConnections = 0 \<and> sessionId \<noteq> 0
              then (st1, [], Some (Update_session_endedAt sessionId now,
                                  Disconnect_after_session_update userId now))
              else (st1, [To_all (Presence_update (getOnlineUsers clients'))], None)))"

text \<open>
  The code of a handler from an \<open>await\<close> that gave \<open>outcome\<close> to its next \<open>await\<close>, at the
  time \<open>clock\<close>. \<open>session:start\<close> reads the clock for \<open>startedAt\<close> when it calls
  \<open>create\<close>, registers the connection once it has a session, and reads the online users
  after the history. \<open>message:send\<close> reads the clock for \<open>lastSeenAt\<close> after the message
  was stored. A throw ends \<open>session:start\<close> and \<open>message:send\<close> in their \<open>catch\<close>;
  \<open>disconnect\<close> catches it and still broadcasts the presence.
\<close>

definition register :: "socket_id \<Rightarrow> string \<Rightarrow> string \<Rightarrow> assignment \<Rightarrow> session_row
    \<Rightarrow> server_state \<Rightarrow> server_state" where
  "register socket userId nickname assignment session st =
     st\<lparr>connectedClients :=
          Map_set socket
            \<lparr>c_userId = userId, c_nickname = nickname, c_assignment = assignment,
             c_sessionId = s_id session\<rparr> (connectedClients st)\<rparr>"

fun resume :: "(string \<Rightarrow> string) \<Rightarrow> continuation \<Rightarrow> outcome \<Rightarrow> int \<Rightarrow> server_state
    \<Rightarrow> server_state \<times> emit list \<times> next_await" where
  "resume toUpper (Start_after_upsert socket userId nickname assignment) Returned clock st =
     (st, [], Some (Find_open_session userId,
                    Start_after_findFirst socket userId nickname assignment))"
| "resume toUpper (Start_after_findFirst socket userId nickname assignment)
       (Returned_session None) clock st =
     (st, [], Some (Create_session userId clock,
                    Start_after_create socket userId nickname assignment))"
| "resume toUpper (Start_after_findFirst socket userId nickname assignment)
       (Returned_session (Some session)) clock st =
     (register socket userId nickname assignment session st, [],
      Some (Find_messages, Start_after_history socket userId nickname assignment))"
| "resume toUpper (Start_after_create socket userId nickname assignment)
       (Returned_created session) clock st =
     (register socket userId nickname assignment session st, [],
      Some (Find_messages, Start_after_history socket userId nickname assignment))"
| "resume toUpper (Start_after_history socket userId nickname assignment) Returned clock st =
     (st, [To_socket socket
             (Session_ack userId nickname assignment (getOnlineUsers (connectedClients st))),
           To_all (Presence_update (getOnlineUsers (connectedClients st)))],
      None)"
| "resume toUpper (Send_after_classifier clientData text messageId)
       (Returned_response infer) clock st =
     (st, [], Some (Create_message messageId (c_userId clientData) (c_nickname clientData) text
                      (fst (infer_mood toUpper infer)) (snd (infer_mood toUpper infer)),
                    Send_after_create (c_userId clientData)))"
| "resume toUpper (Send_after_create userId) (Returned_message savedMessage) clock st =
     (st, [], Some (Update_user_lastSeenAt userId clock, Send_after_update savedMessage))"
| "resume toUpper (Send_after_update savedMessage) Returned clock st =
     (st, [To_all (Message_new
             \<lparr>dto_id = m_id savedMessage, dto_userId = m_userId savedMessage,
              dto_nicknameSnapshot = m_nicknameSnapshot savedMessage,
              dto_text = m_text savedMessage, dto_createdAt = m_createdAt savedMessage,
              dto_mood = m_mood savedMessage, dto_intensity = m_intensity savedMessage\<rparr>)],
      None)"
| "resume toUpper (Disconnect_after_session_update userId now) Returned clock st =
     (st, [], Some (Update_user_lastSeenAt userId now, Disconnect_after_user_update))"
| "resume toUpper (Disconnect_after_session_update userId now) Threw clock st =
     (st, [To_all (Presence_update (getOnlineUsers (connectedClients st)))], None)"
| "resume toUpper Disconnect_after_user_update outcome clock st =
     (st, [To_all (Presence_update (getOnlineUsers (connectedClients st)))], None)"
| "resume toUpper waiting outcome clock st = (st, [], None)"

text \<open>
  The server with its handlers in flight: the state, one task for every event delivered so
  far, in the order of delivery, and everything emitted so far.
\<close>

datatype task = Awaiting operation continuation | Resolved outcome continuation | Ended

record world =
  w_state :: server_state
  w_tasks :: "task list"
  w_emitted :: "emit list"

definition initial_world :: world where
  "initial_world = \<lparr>w_state = initial_state, w_tasks = [], w_emitted = []\<rparr>"

definition awaiting :: "next_await \<Rightarrow> task" where
  "awaiting next =
     (case next of None \<Rightarrow> Ended | Some (operation, waiting) \<Rightarrow> Awaiting operation waiting)"

datatype action = Deliver client_event | Complete nat int | Resume nat int

fun act :: "(string \<Rightarrow> string) \<Rightarrow> (string \<Rightarrow> string) \<Rightarrow> world \<Rightarrow> action \<Rightarrow> world" where
  "act md5 toUpper w (Deliver e) =
     (case deliver md5 e (w_state w) of
        (st, out, next) \<Rightarrow>
          w\<lparr>w_state := st, w_tasks := w_tasks w @ [awaiting next],
            w_emitted := w_emitted w @ out\<rparr>)"
| "act md5 toUpper w (Complete i clock) =
     (if i < length (w_tasks w)
      then (case w_tasks w ! i of
              Awaiting operation waiting \<Rightarrow>
                (case perform operation clock (w_state w) of
                   (st, outcome) \<Rightarrow>
                     w\<lparr>w_state := st, w_tasks := (w_tasks w)[i := Resolved outcome waiting]\<rparr>)
            | _ \<Rightarrow> w)
      else w)"
| "act md5 toUpper w (Resume i clock) =
     (if i < length (w_tasks w)
      then (case w_tasks w ! i of
              Resolved outcome waiting \<Rightarrow>
                (case resume toUpper waiting outcome clock (w_state w) of
                   (st, out, next) \<Rightarrow>
                     w\<lparr>w_state := st, w_tasks := (w_tasks w)[i := awaiting next],
                       w_emitted := w_emitted w @ out\<rparr>)
            | _ \<Rightarrow> w)
      else w)"

definition run :: "(string \<Rightarrow> string) \<Rightarrow> (string \<Rightarrow> string) \<Rightarrow> action list \<Rightarrow> world" where
  "run md5 toUpper actions = foldl (act md5 toUpper) initial_world actions"

text \<open>
  The actions of the handler of the \<open>i\<close>-th event when nothing comes between them, all at
  the time of the event (no handler has more than four awaits), and the run in which every
  event arrives after the handler before it has ended.
\<close>

fun event_time :: "client_event \<Rightarrow> int" where
  "event_time (Session_start socket payload now) = now"
| "event_time (Message_send socket payload now messageId infer) = now"
| "event_time (Disconnect socket now) = now"

definition uninterrupted :: "nat \<Rightarrow> client_event \<Rightarrow> action list" where
  "uninterrupted i e =
     Deliver e # concat (replicate 4 [Complete i (event_time e), Resume i (event_time e)])"

fun serial :: "nat \<Rightarrow> client_event list \<Rightarrow> action list" where
  "serial i [] = []"
| "serial i (e # evs) = uninterrupted i e @ serial (Suc i) evs"

text \<open>
  \<open>exec\<close> is the state after a serial run of the events \<open>evs\<close>. The claims about
  what one handler does are stated for the states that serial runs reach; a claim about
  every instant is a claim about \<open>run\<close>.
\<close>

definition exec :: "(string \<Rightarrow> string) \<Rightarrow> (string \<Rightarrow> string) \<Rightarrow> client_event list
    \<Rightarrow> server_state" where
  "exec md5 toUpper evs = w_state (run md5 toUpper (serial 0 evs))"

text \<open>
  A handler that has reached an \<open>await\<close> and goes on for \<open>n\<close> more with nothing in
  between: its operation completes and it resumes, \<open>n\<close> times or until it has ended.
\<close>

fun advance :: "nat \<Rightarrow> (string \<Rightarrow> string) \<Rightarrow> int \<Rightarrow> server_state \<times> emit list \<times> next_await
    \<Rightarrow> server_state \<times> emit list \<times> next_await" where
  "advance 0 toUpper clock x = x"
| "advance (Suc n) toUpper clock (st, out, None) = (st, out, None)"
| "advance (Suc n) toUpper clock (st, out, Some (operation, waiting)) =
     (case perform operation clock st of
        (st1, outcome) \<Rightarrow>
          (case resume toUpper waiting outcome clock st1 of
             (st2, out2, next) \<Rightarrow> advance n toUpper clock (st2, out @ out2, next)))"

section \<open>The classification job queue\<close>

text \<open>
  The store has the \<open>InferenceJob\<close> table, and no code of the server reads or writes
  it. The queue's operations on one job follow the specification (4.5).
\<close>

text \<open>Modelled from the spec: the enqueue step of the job queue (the worker is not in the
  sources): on message creation, a job in PENDING with attempts = 0.\<close>

definition enqueue_job :: "string \<Rightarrow> int \<Rightarrow> inference_job list \<Rightarrow>
    inference_job" where
  "enqueue_job messageId now tbl =
     \<lparr>j_id = Suc (length tbl), j_messageId = messageId, j_status = PENDING, j_attempts = 0,
      j_lastError = None, j_createdAt = now, j_updatedAt = now\<rparr>"

text \<open>Modelled from the spec: the claim of the drain step (the worker is not in the
  sources): a PENDING job is flipped to PROCESSING and its attempts are incremented; a job in
  another status is not claimed.\<close>

definition claim_job :: "int \<Rightarrow> inference_job \<Rightarrow> inference_job" where
  "claim_job now j =
     (if j_status j = PENDING
      then j\<lparr>j_status := PROCESSING, j_attempts := j_attempts j + 1, j_updatedAt :=
          now\<rparr>
      else j)"

text \<open>Modelled from the spec: the success of an execution (the worker is not in the
  sources): the job being processed is set to DONE.\<close>

definition job_succeeded :: "int \<Rightarrow> inference_job \<Rightarrow> inference_job" where
  "job_succeeded now j =
     (if j_status j = PROCESSING then j\<lparr>j_status := DONE, j_updatedAt := now\<rparr> else
         j)"

text \<open>Modelled from the spec: the failure of an execution (the worker is not in the
  sources): if attempts < 3 the status reverts to PENDING; if attempts \<ge> 3 the job is set to
  FAILED and the last error is recorded.\<close>

definition job_failed :: "string \<Rightarrow> int \<Rightarrow> inference_job \<Rightarrow>
    inference_job" where
  "job_failed err now j =
     (if j_status j = PROCESSING
      then (if j_attempts j < 3 then j\<lparr>j_status := PENDING, j_updatedAt := now\<rparr>
            else j\<lparr>j_status := FAILED, j_lastError := Some err, j_updatedAt := now\<rparr>)
      else j)"

datatype job_event = Claim int | Succeeded int | Failed string int

text \<open>Modelled from the spec: one move of the state machine of a job (the worker is not in
  the sources), and a run of moves.\<close>

fun job_step :: "inference_job \<Rightarrow> job_event \<Rightarrow> inference_job" where
  "job_step j (Claim now) = claim_job now j"
| "job_step j (Succeeded now) = job_succeeded now j"
| "job_step j (Failed err now) = job_failed err now j"

definition job_run :: "inference_job \<Rightarrow> job_event list \<Rightarrow> inference_job"
    where
  "job_run j evs = foldl job_step j evs"

text \<open>Modelled from the spec: the forward moves of a job's status, PENDING \<rightarrow>
  PROCESSING \<rightarrow> DONE | PENDING (retry) | FAILED.\<close>

definition forward :: "job_status \<Rightarrow> job_status \<Rightarrow> bool" where
  "forward a b =
     (a = b \<or> (a = PENDING \<and> b = PROCESSING) \<or>
      (a = PROCESSING \<and> (b = DONE \<or> b = PENDING \<or> b = FAILED)))"

section \<open>Sample inputs\<close>

text \<open>
  The inputs of the repository's own check of the session logic
      (\<open>verify_session.js\<close>):
  one user with the nickname Verifier on the sockets A and B. The sample digest is the MD5
  digest of the string \<open>a\<close>, for every identifier. The sample upper-casing maps the
  letters a to z to A to Z and leaves every other character: on a string of ASCII characters
  it returns what \<open>toUpperCase\<close> returns.
\<close>

definition sample_toUpper :: "string \<Rightarrow> string" where
  "sample_toUpper s =
     map (\<lambda>c. case map_of (zip ''abcdefghijklmnopqrstuvwxyz'' ''ABCDEFGHIJKLMNOPQRSTUVWXYZ'') c of
                None \<Rightarrow> c | Some C \<Rightarrow> C) s"

abbreviation sample_user :: string where
  "sample_user \<equiv> ''123e4567-e89b-42d3-a456-426614174000''"

abbreviation sample_digest :: "string \<Rightarrow> string" where
  "sample_digest \<equiv> (\<lambda>userId. ''0cc175b9c0f1b6a831c399e269772661'')"

abbreviation sample_join :: session_start_payload where
  "sample_join \<equiv>
     \<lparr>ssp_userId = Some sample_user, ssp_nickname = Some ''Verifier''\<rparr>"

abbreviation sample_hello :: message_send_payload where
  "sample_hello \<equiv> \<lparr>msp_userId = Some sample_user, msp_text = Some ''hello''\<rparr>"

abbreviation sample_hello_data :: message_send_data where
  "sample_hello_data \<equiv> \<lparr>msd_userId = sample_user, msd_text = ''hello''\<rparr>"

abbreviation sample_client :: client_data where
  "sample_client \<equiv>
     \<lparr>c_userId = sample_user, c_nickname = ''Verifier'', c_assignment = CONTROL,
      c_sessionId = 1\<rparr>"

abbreviation joined :: server_state where
  "joined \<equiv> exec sample_digest sample_toUpper [Session_start ''sockA'' sample_join 1000]"

abbreviation five_sent :: server_state where
  "five_sent \<equiv> exec sample_digest sample_toUpper
     [Session_start ''sockA'' sample_join 1000,
      Message_send ''sockA'' sample_hello 2001 ''m1'' Call_throws,
      Message_send ''sockA'' sample_hello 2002 ''m2'' Call_throws,
      Message_send ''sockA'' sample_hello 2003 ''m3'' Call_throws,
      Message_send ''sockA'' sample_hello 2004 ''m4'' Call_throws,
      Message_send ''sockA'' sample_hello 2005 ''m5'' Call_throws]"

text \<open>
  Two joins of the sample user that overlap, on the sockets A and B. The second arrives once
  the upsert of the first is done; both handlers then read the open sessions before either
  has created one.
\<close>

abbreviation racing_joins :: "action list" where
  "racing_joins \<equiv>
     [Deliver (Session_start ''sockA'' sample_join 1000), Complete 0 1001, Resume 0 1002,
      Deliver (Session_start ''sockB'' sample_join 1003), Complete 1 1004, Resume 1 1005,
      Complete 0 1006, Complete 1 1007, Resume 0 1008, Resume 1 1009,
      Complete 0 1010, Complete 1 1011, Resume 0 1012, Resume 1 1013,
      Complete 0 1014, Resume 0 1015, Complete 1 1016, Resume 1 1017]"

section \<open>Serial runs\<close>

text \<open>
  A handler that nothing interrupts does what the function written for it above does: cut at
  its \<open>await\<close>s and run with every operation completing at once, it reaches the same state
  and emits the same events. So the state after a serial run is the fold of \<open>step\<close> over the
  events.
\<close>

lemma advance_session_start:
  "advance 4 toUpper now (deliver md5 (Session_start socket payload now) st) =
     (fst (session_start md5 socket payload now st), snd (session_start md5 socket payload now st),
      None)"
proof (cases "SessionStartSchema payload")
  case None
  then show ?thesis
    by (simp add: session_start_def eval_nat_numeral)
next
  case (Some d)
  show ?thesis
  proof (cases "findOpenSession (ssd_userId d) (sessions st)")
    case None
    with Some show ?thesis
      by (simp add: session_start_def register_def upsertUser_def Let_def eval_nat_numeral
          split: option.splits)
  next
    case (Some r)
    with \<open>SessionStartSchema payload = Some d\<close> show ?thesis
      by (simp add: session_start_def register_def upsertUser_def Let_def eval_nat_numeral
          split: option.splits)
  qed
qed

lemma advance_disconnect:
  "advance 4 toUpper now (deliver md5 (Disconnect socket now) st) =
     (fst (disconnect socket now st), snd (disconnect socket now st), None)"
proof (cases "Map_get (connectedClients st) socket")
  case None
  then show ?thesis by (simp add: disconnect_def eval_nat_numeral)
next
  case (Some clientData)
  let ?clients = "Map_delete socket (connectedClients st)"
  let ?last = "length (filter (\<lambda>client. c_userId client = c_userId clientData)
                   (Map_values ?clients)) = 0 \<and> c_sessionId clientData \<noteq> 0"
  show ?thesis
  proof (cases ?last)
    case False
    with Some show ?thesis by (auto simp add: disconnect_def Let_def eval_nat_numeral)
  next
    case True
    show ?thesis
    proof (cases "c_sessionId clientData \<in> set (map s_id (sessions st))")
      case False
      with Some True show ?thesis by (simp add: disconnect_def Let_def eval_nat_numeral)
    next
      case known: True
      show ?thesis
      proof (cases "users st (c_userId clientData)")
        case None
        with Some True known show ?thesis
          by (simp add: disconnect_def Let_def eval_nat_numeral)
      next
        case (Some u)
        with \<open>Map_get (connectedClients st) socket = Some clientData\<close> True known show ?thesis
          by (simp add: disconnect_def Let_def eval_nat_numeral)
      qed
    qed
  qed
qed

lemma advance_message_send:
  "advance 4 toUpper now (deliver md5 (Message_send socket payload now messageId infer) st) =
     (fst (message_send toUpper socket payload now messageId infer st),
      snd (message_send toUpper socket payload now messageId infer st), None)"
proof (cases "Map_get (connectedClients st) socket")
  case None
  then show ?thesis by (simp add: message_send_def eval_nat_numeral)
next
  case client: (Some clientData)
  show ?thesis
  proof (cases "MessageSendSchema payload")
    case None
    with client show ?thesis by (simp add: message_send_def eval_nat_numeral)
  next
    case valid: (Some d)
    show ?thesis
    proof (cases "msd_userId d = c_userId clientData")
      case False
      with client valid show ?thesis by (simp add: message_send_def eval_nat_numeral)
    next
      case same: True
      show ?thesis
      proof (cases "rate_limit_check (rateLimits st (c_userId clientData)) now")
        case None
        with client valid same show ?thesis by (simp add: message_send_def eval_nat_numeral)
      next
        case admitted: (Some limitData)
        show ?thesis
        proof (cases "users st (c_userId clientData)")
          case None
          with client valid same admitted show ?thesis
            by (simp add: message_send_def Let_def eval_nat_numeral split: prod.splits)
        next
          case user: (Some u)
          show ?thesis
          proof (cases "messageId \<in> set (map m_id (messages st))")
            case True
            with client valid same admitted user show ?thesis
              by (simp add: message_send_def Let_def eval_nat_numeral split: prod.splits)
          next
            case False
            with client valid same admitted user show ?thesis
              by (simp add: message_send_def Let_def eval_nat_numeral split_beta)
          qed
        qed
      qed
    qed
  qed
qed


lemma advance_is_step:
  "advance 4 toUpper (event_time e) (deliver md5 e st) =
     (fst (step md5 toUpper e st), snd (step md5 toUpper e st), None)"
  by (cases e)
    (simp_all only: event_time.simps step.simps advance_session_start advance_message_send
      advance_disconnect)

lemma advance_ended:
  "advance n toUpper t (st, out, None) = (st, out, None)"
  by (cases n) simp_all

lemma advance_emits:
  "advance n toUpper t (st, out, nxt) =
     (fst (advance n toUpper t (st, [], nxt)),
      out @ fst (snd (advance n toUpper t (st, [], nxt))),
      snd (snd (advance n toUpper t (st, [], nxt))))"
proof (induction n arbitrary: st out nxt)
  case 0
  show ?case by simp
next
  case (Suc n)
  show ?case
  proof (cases nxt)
    case None
    then show ?thesis by simp
  next
    case (Some p)
    obtain operation waiting where p: "p = (operation, waiting)" by (cases p)
    obtain st1 outcome where perf: "perform operation t st = (st1, outcome)"
      by (cases "perform operation t st")
    obtain st2 out2 next2 where res: "resume toUpper waiting outcome t st1 = (st2, out2, next2)"
      by (cases "resume toUpper waiting outcome t st1")
    from Suc.IH [of st2 "out @ out2" next2] Suc.IH [of st2 out2 next2] Some p perf res
    show ?thesis by simp
  qed
qed

lemma pairs_advance:
  assumes "w_tasks w = ts @ [awaiting nxt]"
  shows "foldl (act md5 toUpper) w
           (concat (replicate n [Complete (length ts) t, Resume (length ts) t])) =
         w\<lparr>w_state := fst (advance n toUpper t (w_state w, [], nxt)),
           w_tasks := ts @ [awaiting (snd (snd (advance n toUpper t (w_state w, [], nxt))))],
           w_emitted := w_emitted w @ fst (snd (advance n toUpper t (w_state w, [], nxt)))\<rparr>"
  using assms
proof (induction n arbitrary: w nxt)
  case 0
  then show ?case by simp
next
  case (Suc n)
  let ?pair = "[Complete (length ts) t, Resume (length ts) t]"
  have unroll: "foldl (act md5 toUpper) w (concat (replicate (Suc n) ?pair)) =
      foldl (act md5 toUpper) (foldl (act md5 toUpper) w ?pair) (concat (replicate n ?pair))"
    by (simp del: act.simps)
  show ?case
  proof (cases nxt)
    case None
    with Suc.prems have "foldl (act md5 toUpper) w ?pair = w"
      by (simp add: awaiting_def)
    with Suc.IH [OF Suc.prems] None show ?thesis
      unfolding unroll by (simp add: advance_ended)
  next
    case (Some p)
    obtain operation waiting where p: "p = (operation, waiting)" by (cases p)
    obtain st1 outcome where perf: "perform operation t (w_state w) = (st1, outcome)"
      by (cases "perform operation t (w_state w)")
    obtain st2 out2 next2 where res: "resume toUpper waiting outcome t st1 = (st2, out2, next2)"
      by (cases "resume toUpper waiting outcome t st1")
    let ?w' = "w\<lparr>w_state := st2, w_tasks := ts @ [awaiting next2],
                 w_emitted := w_emitted w @ out2\<rparr>"
    from Suc.prems Some p perf res
    have one: "foldl (act md5 toUpper) w ?pair = ?w'"
      by (simp add: awaiting_def)
    have tasks: "w_tasks ?w' = ts @ [awaiting next2]" by simp
    have adv: "advance (Suc n) toUpper t (w_state w, [], nxt) =
        advance n toUpper t (st2, out2, next2)"
      using Some p perf res by simp
    show ?thesis
      unfolding unroll one Suc.IH [OF tasks] adv advance_emits [of n toUpper t st2 out2 next2]
      by simp
  qed
qed

lemma uninterrupted_is_step:
  "foldl (act md5 toUpper) w (uninterrupted (length (w_tasks w)) e) =
     w\<lparr>w_state := fst (step md5 toUpper e (w_state w)),
       w_tasks := w_tasks w @ [Ended],
       w_emitted := w_emitted w @ snd (step md5 toUpper e (w_state w))\<rparr>"
proof -
  obtain st out nxt where del: "deliver md5 e (w_state w) = (st, out, nxt)"
    by (cases "deliver md5 e (w_state w)")
  let ?w' = "w\<lparr>w_state := st, w_tasks := w_tasks w @ [awaiting nxt],
               w_emitted := w_emitted w @ out\<rparr>"
  let ?a = "advance 4 toUpper (event_time e) (st, [], nxt)"
  have first: "act md5 toUpper w (Deliver e) = ?w'"
    using del by simp
  have tasks: "w_tasks ?w' = w_tasks w @ [awaiting nxt]" by simp
  from advance_is_step [of toUpper e md5 "w_state w"] del
  have "(fst ?a, out @ fst (snd ?a), snd (snd ?a)) =
      (fst (step md5 toUpper e (w_state w)), snd (step md5 toUpper e (w_state w)), None)"
    using advance_emits [of 4 toUpper "event_time e" st out nxt] by simp
  then have a: "fst ?a = fst (step md5 toUpper e (w_state w))"
      "out @ fst (snd ?a) = snd (step md5 toUpper e (w_state w))" "snd (snd ?a) = None"
    by simp_all
  have "foldl (act md5 toUpper) w (uninterrupted (length (w_tasks w)) e) =
      foldl (act md5 toUpper) ?w'
        (concat (replicate 4 [Complete (length (w_tasks w)) (event_time e),
           Resume (length (w_tasks w)) (event_time e)]))"
    unfolding uninterrupted_def foldl_Cons first ..
  also have "\<dots> = ?w'\<lparr>w_state := fst ?a, w_tasks := w_tasks w @ [awaiting (snd (snd ?a))],
      w_emitted := w_emitted ?w' @ fst (snd ?a)\<rparr>"
    using pairs_advance [OF tasks, of md5 toUpper 4 "event_time e"] by simp
  also have "\<dots> = w\<lparr>w_state := fst (step md5 toUpper e (w_state w)),
       w_tasks := w_tasks w @ [Ended],
       w_emitted := w_emitted w @ snd (step md5 toUpper e (w_state w))\<rparr>"
    using a by (simp add: awaiting_def)
  finally show ?thesis .
qed

lemma serial_is_exec:
  "w_state (foldl (act md5 toUpper) w (serial (length (w_tasks w)) evs)) =
     foldl (\<lambda>st e. fst (step md5 toUpper e st)) (w_state w) evs"
proof (induction evs arbitrary: w)
  case Nil
  show ?case by simp
next
  case (Cons e evs)
  let ?w' = "w\<lparr>w_state := fst (step md5 toUpper e (w_state w)),
       w_tasks := w_tasks w @ [Ended],
       w_emitted := w_emitted w @ snd (step md5 toUpper e (w_state w))\<rparr>"
  have len: "Suc (length (w_tasks w)) = length (w_tasks ?w')" by simp
  have "foldl (act md5 toUpper) w (serial (length (w_tasks w)) (e # evs)) =
      foldl (act md5 toUpper) ?w' (serial (length (w_tasks ?w')) evs)"
    unfolding serial.simps foldl_append uninterrupted_is_step len ..
  then have "w_state (foldl (act md5 toUpper) w (serial (length (w_tasks w)) (e # evs))) =
      foldl (\<lambda>st e. fst (step md5 toUpper e st)) (w_state ?w') evs"
    unfolding Cons.IH [of ?w', symmetric] by (rule arg_cong)
  then show ?case by simp
qed

lemma exec_foldl:
  "exec md5 toUpper evs = foldl (\<lambda>st e. fst (step md5 toUpper e st)) initial_state evs"
  unfolding run_def exec_def
  using serial_is_exec [of md5 toUpper initial_world evs]
  by (simp add: initial_world_def)

section \<open>Evaluating the handlers\<close>

lemmas schema_defs = SessionStartSchema_def MessageSendSchema_def zod_string_def is_uuid_def
  is_hex_def trim_def is_space_def

lemmas handler_defs = session_start_def message_send_def disconnect_def findOpenSession_def
  createSession_def upsertUser_def closeSession_def rate_limit_check_def infer_mood_def
  RATE_LIMIT_WINDOW_MS_def RATE_LIMIT_MAX_MESSAGES_def Map_get_def Map_delete_def Map_values_def

lemma joined_client: "Map_get (connectedClients joined) ''sockA'' = Some sample_client"
  by (simp add: exec_foldl initial_state_def schema_defs handler_defs getAssignment_def
      parseInt16_def hex_digit_def Let_def)

lemma sample_hello_valid: "MessageSendSchema sample_hello = Some sample_hello_data"
  by (simp add: schema_defs)

lemma sample_hello_user: "msd_userId sample_hello_data = c_userId sample_client"
  by simp

lemma joined_rate_limit:
  "rate_limit_check (rateLimits joined (c_userId sample_client)) 2000 =
     Some \<lparr>l_count = 1, l_startTime = 2000\<rparr>"
  by (simp add: exec_foldl initial_state_def schema_defs handler_defs Let_def)

lemma joined_messages: "''m1'' \<notin> set (map m_id (messages joined))"
  by (simp add: exec_foldl initial_state_def schema_defs handler_defs Let_def)

section \<open>Presence: the list of online users\<close>

lemma Map_set_key_list:
  "map fst (Map_set k v m) = (if k \<in> fst ` set m then map fst m else map fst m @ [k])"
  by (induction m) force+

lemma Map_set_entries: "set (Map_set k v m) \<subseteq> insert (k, v) (set m)"
  by (induction m) (auto split: if_splits)

lemma Map_set_distinct: "distinct (map fst m) \<Longrightarrow> distinct (map fst (Map_set k v
    m))"
  by (simp add: Map_set_key_list)

lemma map_of_Map_set: "map_of (Map_set k v m) = (map_of m)(k \<mapsto> v)"
  by (induction m) auto

lemma foldl_Map_set_distinct:
  "distinct (map fst m) \<Longrightarrow> distinct (map fst (foldl (\<lambda>m x. Map_set (key x)
      (val x) m) m xs))"
  by (induction xs arbitrary: m) (simp_all add: Map_set_distinct)

lemma foldl_Map_set_entries:
  "set (foldl (\<lambda>m x. Map_set (key x) (val x) m) m xs) \<subseteq> set m \<union>
      (\<lambda>x. (key x, val x)) ` set xs"
proof (induction xs arbitrary: m)
  case Nil
  then show ?case by simp
next
  case (Cons x xs)
  show ?case using Cons.IH [of "Map_set (key x) (val x) m"] Map_set_entries [of "key x" "val x" m]
    by auto
qed

lemma foldl_Map_set_lookup:
  "map_of (foldl (\<lambda>m x. Map_set (key x) (val x) m) m xs) k =
     (case filter (\<lambda>x. key x = k) xs of [] \<Rightarrow> map_of m k | y # ys \<Rightarrow>
         Some (val (last (y # ys))))"
proof (induction xs arbitrary: m)
  case Nil
  then show ?case by simp
next
  case (Cons x xs)
  show ?case
    by (simp add: Cons.IH map_of_Map_set split: list.splits)
qed

lemma filter_values_by_key:
  "distinct (map fst m) \<Longrightarrow> (\<And>k v. (k, v) \<in> set m \<Longrightarrow> g v =
      k) \<Longrightarrow>
     filter (\<lambda>v. g v = u) (map snd m) = (case map_of m u of None \<Rightarrow> [] | Some v
         \<Rightarrow> [v])"
proof (induction m)
  case Nil
  then show ?case by simp
next
  case (Cons e m)
  obtain k v where e: "e = (k, v)" by (cases e)
  have gv: "g v = k" using Cons.prems(2) e by simp
  have IH: "filter (\<lambda>v. g v = u) (map snd m) = (case map_of m u of None \<Rightarrow> [] |
      Some v \<Rightarrow> [v])"
    using Cons by simp
  show ?case
  proof (cases "k = u")
    case True
    have "u \<notin> fst ` set m" using Cons.prems(1) e True by auto
    then have "map_of m u = None" by (simp add: map_of_eq_None_iff)
    with IH e gv True show ?thesis by simp
  next
    case False
    with IH e gv show ?thesis by simp
  qed
qed

text \<open>
  C9. For every content of \<open>connectedClients\<close> and every user, the entries of
  \<open>getOnlineUsers\<close> for that user are: none when the user has no connection, and
  exactly one when the user has N \<ge> 1 connections, carrying the user's id and the display
  name and experiment group of the user's connection that comes last in the map; no user id
  occurs twice in the list.
\<close>

theorem online_users_deduplicated:
  "filter (\<lambda>e. ou_userId e = u) (getOnlineUsers clients) =
     (case filter (\<lambda>c. c_userId c = u) (Map_values clients) of
        [] \<Rightarrow> []
      | c # cs \<Rightarrow> [\<lparr>ou_userId = u, ou_nickname = c_nickname (last (c # cs)),
                     ou_assignment = c_assignment (last (c # cs))\<rparr>]) \<and>
   distinct (map ou_userId (getOnlineUsers clients))"
proof -
  let ?key = c_userId
  let ?val = "\<lambda>client. \<lparr>ou_userId = c_userId client, ou_nickname = c_nickname
      client,
      ou_assignment = c_assignment client\<rparr>"
  let ?m = "foldl (\<lambda>m x. Map_set (?key x) (?val x) m) [] (Map_values clients)"
  have out: "getOnlineUsers clients = map snd ?m"
    by (simp add: getOnlineUsers_def Map_values_def)
  have d: "distinct (map fst ?m)"
    by (rule foldl_Map_set_distinct) simp
  have g: "\<And>k v. (k, v) \<in> set ?m \<Longrightarrow> ou_userId v = k"
    using foldl_Map_set_entries [of ?key ?val "[]" "Map_values clients"] by auto
  have "filter (\<lambda>e. ou_userId e = u) (map snd ?m) =
      (case map_of ?m u of None \<Rightarrow> [] | Some v \<Rightarrow> [v])"
    using d g by (rule filter_values_by_key)
  also have "map_of ?m u =
      (case filter (\<lambda>x. ?key x = u) (Map_values clients) of [] \<Rightarrow> None
       | y # ys \<Rightarrow> Some (?val (last (y # ys))))"
    by (simp add: foldl_Map_set_lookup [of ?key ?val "[]"] split: list.splits)
  finally have m: "filter (\<lambda>e. ou_userId e = u) (getOnlineUsers clients) =
      (case (case filter (\<lambda>x. ?key x = u) (Map_values clients) of [] \<Rightarrow> None
       | y # ys \<Rightarrow> Some (?val (last (y # ys)))) of None \<Rightarrow> [] | Some v
           \<Rightarrow> [v])"
    by (simp add: out)
  have first: "filter (\<lambda>e. ou_userId e = u) (getOnlineUsers clients) =
     (case filter (\<lambda>c. c_userId c = u) (Map_values clients) of
        [] \<Rightarrow> []
      | c # cs \<Rightarrow> [\<lparr>ou_userId = u, ou_nickname = c_nickname (last (c # cs)),
                     ou_assignment = c_assignment (last (c # cs))\<rparr>])"
  proof (cases "filter (\<lambda>c. c_userId c = u) (Map_values clients)")
    case Nil
    with m show ?thesis by simp
  next
    case (Cons c cs)
    have "last (c # cs) \<in> set (filter (\<lambda>c. c_userId c = u) (Map_values clients))"
      unfolding Cons by (rule last_in_set) simp
    then have "c_userId (last (c # cs)) = u" by simp
    with m Cons show ?thesis by simp
  qed
  have "\<forall>x \<in> set ?m. ou_userId (snd x) = fst x"
    using g by auto
  then have "map ou_userId (getOnlineUsers clients) = map fst ?m"
    by (simp add: out o_def)
  with d have "distinct (map ou_userId (getOnlineUsers clients))"
    by (simp only:)
  with first show ?thesis by simp
qed

theorem online_users_deduplicated_witness:
  "filter (\<lambda>e. ou_userId e = ''u'')
     (getOnlineUsers
        [(''s1'', \<lparr>c_userId = ''u'', c_nickname = ''Ann'', c_assignment = CONTROL,
            c_sessionId = 1\<rparr>),
         (''s2'', \<lparr>c_userId = ''v'', c_nickname = ''Bob'', c_assignment = TREATMENT,
             c_sessionId = 2\<rparr>),
         (''s3'', \<lparr>c_userId = ''u'', c_nickname = ''Anna'', c_assignment = CONTROL,
             c_sessionId = 1\<rparr>)]) =
     [\<lparr>ou_userId = ''u'', ou_nickname = ''Anna'', ou_assignment = CONTROL\<rparr>] \<and>
   distinct (map ou_userId
     (getOnlineUsers
        [(''s1'', \<lparr>c_userId = ''u'', c_nickname = ''Ann'', c_assignment = CONTROL,
            c_sessionId = 1\<rparr>),
         (''s2'', \<lparr>c_userId = ''v'', c_nickname = ''Bob'', c_assignment = TREATMENT,
             c_sessionId = 2\<rparr>),
         (''s3'', \<lparr>c_userId = ''u'', c_nickname = ''Anna'', c_assignment = CONTROL,
             c_sessionId = 1\<rparr>)]))"
  using online_users_deduplicated [of "''u''"
      "[(''s1'', \<lparr>c_userId = ''u'', c_nickname = ''Ann'', c_assignment = CONTROL,
          c_sessionId = 1\<rparr>),
        (''s2'', \<lparr>c_userId = ''v'', c_nickname = ''Bob'', c_assignment = TREATMENT,
            c_sessionId = 2\<rparr>),
        (''s3'', \<lparr>c_userId = ''u'', c_nickname = ''Anna'', c_assignment = CONTROL,
            c_sessionId = 1\<rparr>)]"]
  by (simp add: Map_values_def)

section \<open>Sessions: at most one open session per user\<close>

lemma exec_Nil: "exec md5 toUpper [] = initial_state"
  by (simp add: exec_foldl)

lemma exec_snoc: "exec md5 toUpper (evs @ [e]) = fst (step md5 toUpper e (exec md5 toUpper evs))"
  by (simp add: exec_foldl)

lemma find_filter: "find P xs = (case filter P xs of [] \<Rightarrow> None | x # _ \<Rightarrow>
    Some x)"
  by (induction xs) auto

lemma findOpenSession_open_sessions:
  "findOpenSession u (sessions st) = (case open_sessions u st of [] \<Rightarrow> None | r # _
      \<Rightarrow> Some r)"
  by (simp add: findOpenSession_def open_sessions_def find_filter)

lemma Map_get_Map_set: "Map_get (Map_set k v m) k' = (if k' = k then Some v else Map_get m k')"
  by (simp add: Map_get_def map_of_Map_set)

lemma sessions_session_start:
  "sessions (fst (session_start md5 socket payload now st)) =
     (case SessionStartSchema payload of
        None \<Rightarrow> sessions st
      | Some d \<Rightarrow>
          (case findOpenSession (ssd_userId d) (sessions st) of
             None \<Rightarrow> sessions st @ [createSession (ssd_userId d) now (sessions st)]
           | Some r \<Rightarrow> sessions st))"
  by (simp add: session_start_def Let_def split: option.splits)

lemma sessions_message_send:
  "sessions (fst (message_send toUpper socket payload now messageId infer st)) = sessions st"
  by (simp add: message_send_def Let_def split: option.splits prod.splits)

lemma sessions_disconnect:
  "sessions (fst (disconnect socket now st)) = sessions st \<or>
   (\<exists>i. sessions (fst (disconnect socket now st)) = closeSession i now (sessions st))"
  by (auto simp add: disconnect_def Let_def split: option.splits)

lemma length_closeSession: "length (closeSession i now rows) = length rows"
  by (simp add: closeSession_def)

lemma open_after_closeSession:
  "length (filter (\<lambda>r. s_userId r = u \<and> s_endedAt r = None) (closeSession i now
      rows))
     \<le> length (filter (\<lambda>r. s_userId r = u \<and> s_endedAt r = None) rows)"
  by (induction rows) (auto simp: closeSession_def)

lemma step_keeps_one_open:
  assumes "length (open_sessions u st) \<le> 1"
  shows "length (open_sessions u (fst (step md5 toUpper e st))) \<le> 1"
proof (cases e)
  case (Session_start socket payload now)
  show ?thesis
  proof (cases "SessionStartSchema payload")
    case None
    with assms Session_start show ?thesis
      by (simp add: open_sessions_def sessions_session_start)
  next
    case (Some d)
    show ?thesis
    proof (cases "open_sessions (ssd_userId d) st")
      case Nil
      then have "u = ssd_userId d \<Longrightarrow> open_sessions u st = []" by simp
      with assms Session_start Some Nil show ?thesis
        by (auto simp add: open_sessions_def sessions_session_start createSession_def
            findOpenSession_def find_filter)
    next
      case (Cons r rs)
      with assms Session_start Some show ?thesis
        by (simp add: open_sessions_def sessions_session_start findOpenSession_def find_filter)
    qed
  qed
next
  case (Message_send socket payload now messageId infer)
  with assms show ?thesis
    by (simp add: open_sessions_def sessions_message_send)
next
  case (Disconnect socket now)
  from sessions_disconnect [of socket now st] show ?thesis
  proof
    assume "sessions (fst (disconnect socket now st)) = sessions st"
    with assms Disconnect show ?thesis by (simp add: open_sessions_def)
  next
    assume "\<exists>i. sessions (fst (disconnect socket now st)) = closeSession i now (sessions
        st)"
    then obtain i where i: "sessions (fst (disconnect socket now st)) = closeSession i now
        (sessions st)" ..
    have "length (open_sessions u (fst (disconnect socket now st))) \<le> length (open_sessions u
        st)"
      unfolding open_sessions_def i by (rule open_after_closeSession)
    with assms Disconnect show ?thesis by simp
  qed
qed

lemma exec_one_open: "length (open_sessions u (exec md5 toUpper evs)) \<le> 1"
proof (induction evs rule: rev_induct)
  case Nil
  show ?case by (simp add: exec_Nil initial_state_def open_sessions_def)
next
  case (snoc e evs)
  show ?case unfolding exec_snoc using snoc by (rule step_keeps_one_open)
qed

lemma session_rows_grow_only_at_start:
  "length (sessions (fst (step md5 toUpper e st))) = length (sessions st) \<or>
   (\<exists>socket payload now d. e = Session_start socket payload now \<and>
      SessionStartSchema payload = Some d \<and> open_sessions (ssd_userId d) st = [] \<and>
      sessions (fst (step md5 toUpper e st)) = sessions st @ [createSession (ssd_userId d) now (sessions
          st)])"
proof (cases e)
  case (Session_start socket payload now)
  then show ?thesis
    by (auto simp add: sessions_session_start findOpenSession_open_sessions
        split: option.splits list.splits)
next
  case (Message_send socket payload now messageId infer)
  then show ?thesis by (simp add: sessions_message_send)
next
  case (Disconnect socket now)
  with sessions_disconnect [of socket now st] show ?thesis
    by (auto simp add: length_closeSession)
qed

lemma session_start_reuses:
  assumes "SessionStartSchema payload = Some d" "open_sessions (ssd_userId d) st = r # rs"
  shows "sessions (fst (session_start md5 socket payload now st)) = sessions st \<and>
         map_option c_sessionId (Map_get (connectedClients (fst (session_start md5 socket payload
             now st))) socket)
           = Some (s_id r)"
  using assms
  by (simp add: session_start_def Let_def findOpenSession_open_sessions Map_get_Map_set)


text \<open>
  Serial runs. In every state that a serial run reaches, a user has at most one session without
  an end time. A \<open>session:start\<close> with an invalid payload changes nothing; with a
  valid one for a user who has an open session it leaves the session table as it is and binds
  the connection to that session; for a user without one it appends one open row that starts
  now. No other event adds a row to the table, and from any state in which a user has at most
  one open session (a store kept over a restart) every uninterrupted handler leads to such a
  state.
\<close>

lemma serial_runs_keep_one_open_session:
  "length (open_sessions u (exec md5 toUpper evs)) \<le> 1 \<and>
   (case SessionStartSchema payload of
      None \<Rightarrow> fst (session_start md5 socket payload now (exec md5 toUpper evs)) = exec md5 toUpper evs
    | Some d \<Rightarrow>
        (case open_sessions (ssd_userId d) (exec md5 toUpper evs) of
           [] \<Rightarrow>
             sessions (fst (session_start md5 socket payload now (exec md5 toUpper evs))) =
               sessions (exec md5 toUpper evs) @
                 [\<lparr>s_id = Suc (length (sessions (exec md5 toUpper evs))), s_userId = ssd_userId d,
                   s_startedAt = now, s_endedAt = None, s_durationSec = None\<rparr>]
         | r # rs \<Rightarrow>
             rs = [] \<and>
             sessions (fst (session_start md5 socket payload now (exec md5 toUpper evs))) =
               sessions (exec md5 toUpper evs) \<and>
             map_option c_sessionId
               (Map_get
                  (connectedClients (fst (session_start md5 socket payload now (exec md5 toUpper evs))))
                  socket) = Some (s_id r))) \<and>
   (length (sessions (fst (step md5 toUpper e (exec md5 toUpper evs)))) = length (sessions (exec md5 toUpper evs)) \<or>
    (\<exists>socket' payload' now' d'.
        e = Session_start socket' payload' now' \<and> SessionStartSchema payload' = Some d' \<and>
        open_sessions (ssd_userId d') (exec md5 toUpper evs) = [])) \<and>
   (length (open_sessions u' st) \<le> 1 \<longrightarrow>
      length (open_sessions u' (fst (step md5 toUpper e' st))) \<le> 1)"
proof -
  let ?st = "exec md5 toUpper evs"
  have one: "\<And>v. length (open_sessions v ?st) \<le> 1"
    by (rule exec_one_open)
  have start: "case SessionStartSchema payload of
      None \<Rightarrow> fst (session_start md5 socket payload now ?st) = ?st
    | Some d \<Rightarrow>
        (case open_sessions (ssd_userId d) ?st of
           [] \<Rightarrow>
             sessions (fst (session_start md5 socket payload now ?st)) =
               sessions ?st @
                 [\<lparr>s_id = Suc (length (sessions ?st)), s_userId = ssd_userId d,
                   s_startedAt = now, s_endedAt = None, s_durationSec = None\<rparr>]
         | r # rs \<Rightarrow>
             rs = [] \<and>
             sessions (fst (session_start md5 socket payload now ?st)) = sessions ?st \<and>
             map_option c_sessionId
               (Map_get (connectedClients (fst (session_start md5 socket payload now ?st))) socket)
               = Some (s_id r))"
  proof (cases "SessionStartSchema payload")
    case None
    then show ?thesis by (simp add: session_start_def)
  next
    case (Some d)
    show ?thesis
    proof (cases "open_sessions (ssd_userId d) ?st")
      case Nil
      with Some show ?thesis
        by (simp add: sessions_session_start findOpenSession_open_sessions createSession_def)
    next
      case (Cons r rs)
      from one [of "ssd_userId d"] Cons have "rs = []" by simp
      with Some Cons session_start_reuses [OF Some Cons, of md5 socket now] show ?thesis
        by simp
    qed
  qed
  have grow: "length (sessions (fst (step md5 toUpper e ?st))) = length (sessions ?st) \<or>
    (\<exists>socket' payload' now' d'.
        e = Session_start socket' payload' now' \<and> SessionStartSchema payload' = Some d' \<and>
        open_sessions (ssd_userId d') ?st = [])"
    using session_rows_grow_only_at_start [of md5 toUpper e ?st] by blast
  have keep: "length (open_sessions u' st) \<le> 1 \<longrightarrow>
      length (open_sessions u' (fst (step md5 toUpper e' st))) \<le> 1"
    by (rule impI) (rule step_keeps_one_open)
  from one [of u] start grow keep show ?thesis by (intro conjI)
qed

text \<open>
  C1. The handler of \<open>session:start\<close> awaits its \<open>findFirst\<close> and then its
  \<open>create\<close> (lines 288--302) with nothing that keeps the handler of another connection of
  the same user from running between the two, and the table has no constraint on open
  sessions. When two joins of the sample user overlap so that both have read the open
  sessions before either creates one, both create a row: the run ends with both handlers
  done, two open sessions of the one user, and each connection bound to its own. The code
  keeps the user to one open session only in serial runs.
\<close>

theorem overlapping_joins_open_two_sessions:
  "open_sessions sample_user (w_state (run md5 toUpper racing_joins)) =
     [\<lparr>s_id = 1, s_userId = sample_user, s_startedAt = 1008, s_endedAt = None,
       s_durationSec = None\<rparr>,
      \<lparr>s_id = 2, s_userId = sample_user, s_startedAt = 1009, s_endedAt = None,
       s_durationSec = None\<rparr>] \<and>
   sessions (w_state (run md5 toUpper racing_joins)) =
     open_sessions sample_user (w_state (run md5 toUpper racing_joins)) \<and>
   map (\<lambda>(socket, client). (socket, c_userId client, c_sessionId client))
     (connectedClients (w_state (run md5 toUpper racing_joins))) =
     [(''sockA'', sample_user, 1), (''sockB'', sample_user, 2)] \<and>
   w_tasks (run md5 toUpper racing_joins) = [Ended, Ended] \<and>
   length (open_sessions u (w_state (run md5 toUpper (serial 0 evs)))) \<le> 1"
proof -
  have race: "sessions (w_state (run md5 toUpper racing_joins)) =
     [\<lparr>s_id = 1, s_userId = sample_user, s_startedAt = 1008, s_endedAt = None,
       s_durationSec = None\<rparr>,
      \<lparr>s_id = 2, s_userId = sample_user, s_startedAt = 1009, s_endedAt = None,
       s_durationSec = None\<rparr>] \<and>
   map (\<lambda>(socket, client). (socket, c_userId client, c_sessionId client))
     (connectedClients (w_state (run md5 toUpper racing_joins))) =
     [(''sockA'', sample_user, 1), (''sockB'', sample_user, 2)] \<and>
   w_tasks (run md5 toUpper racing_joins) = [Ended, Ended]"
    by (simp add: run_def initial_world_def initial_state_def awaiting_def register_def
        schema_defs findOpenSession_def createSession_def Let_def getOnlineUsers_def)
  have serial: "length (open_sessions u (w_state (run md5 toUpper (serial 0 evs)))) \<le> 1"
    using exec_one_open [of u md5 toUpper evs] by (simp only: exec_def)
  from race serial show ?thesis
    by (simp add: open_sessions_def)
qed

section \<open>Closing a session\<close>

lemma step_writes_no_duration:
  assumes "\<forall>r \<in> set (sessions st). s_durationSec r = None"
  shows "\<forall>r \<in> set (sessions (fst (step md5 toUpper e st))). s_durationSec r = None"
proof (cases e)
  case (Session_start socket payload now)
  with assms show ?thesis
    by (auto simp add: sessions_session_start createSession_def split: option.splits)
next
  case (Message_send socket payload now messageId infer)
  with assms show ?thesis by (simp add: sessions_message_send)
next
  case (Disconnect socket now)
  with assms sessions_disconnect [of socket now st] show ?thesis
    by (auto simp add: closeSession_def)
qed

lemma duration_is_never_written:
  "\<forall>r \<in> set (sessions (exec md5 toUpper evs)). s_durationSec r = None"
proof (induction evs rule: rev_induct)
  case Nil
  show ?case by (simp add: exec_Nil initial_state_def)
next
  case (snoc e evs)
  then show ?case unfolding exec_snoc by (rule step_writes_no_duration)
qed

lemma disconnect_with_other_connections:
  assumes "Map_get (connectedClients st) socket = Some cd"
    and "filter (\<lambda>client. c_userId client = c_userId cd)
           (Map_values (Map_delete socket (connectedClients st))) \<noteq> []"
  shows "sessions (fst (disconnect socket now st)) = sessions st \<and>
         users (fst (disconnect socket now st)) = users st"
  using assms by (simp add: disconnect_def Let_def)

lemma disconnect_of_last_connection:
  assumes "Map_get (connectedClients st) socket = Some cd"
    and "filter (\<lambda>client. c_userId client = c_userId cd)
           (Map_values (Map_delete socket (connectedClients st))) = []"
    and "c_sessionId cd \<noteq> 0"
    and "c_sessionId cd \<in> set (map s_id (sessions st))"
    and "users st (c_userId cd) = Some u"
  shows "sessions (fst (disconnect socket now st)) =
           map (\<lambda>r. if s_id r = c_sessionId cd then r\<lparr>s_endedAt := Some now\<rparr>
               else r) (sessions st) \<and>
         users (fst (disconnect socket now st)) =
           (users st)(c_userId cd \<mapsto> u\<lparr>u_lastSeenAt := Some now\<rparr>)"
  using assms by (simp add: disconnect_def closeSession_def Let_def)

text \<open>
  C2. Two connections of one user are opened at 1000 and 2000 and closed at 3000 and 61000. The
  first close leaves the session open and the second sets its end time to 61000, but the row's
  duration stays empty: the handler writes \<open>endedAt\<close> only, where the claim has the
  close derive the duration, end time minus start time.
\<close>

theorem last_disconnect_leaves_duration_empty:
  "sessions (exec md5 toUpper
      [Session_start ''sockA'' sample_join 1000,
       Session_start ''sockB'' sample_join 2000,
       Disconnect ''sockA'' 3000]) =
     [\<lparr>s_id = 1, s_userId = sample_user, s_startedAt = 1000, s_endedAt = None,
       s_durationSec = None\<rparr>] \<and>
   sessions (exec md5 toUpper
      [Session_start ''sockA'' sample_join 1000,
       Session_start ''sockB'' sample_join 2000,
       Disconnect ''sockA'' 3000,
       Disconnect ''sockB'' 61000]) =
     [\<lparr>s_id = 1, s_userId = sample_user, s_startedAt = 1000, s_endedAt = Some 61000,
       s_durationSec = None\<rparr>] \<and>
   map_option u_lastSeenAt
     (users (exec md5 toUpper
        [Session_start ''sockA'' sample_join 1000,
         Session_start ''sockB'' sample_join 2000,
         Disconnect ''sockA'' 3000,
         Disconnect ''sockB'' 61000]) sample_user) = Some (Some 61000)"
  by (simp add: exec_foldl initial_state_def schema_defs handler_defs Let_def)

section \<open>Validation of payloads\<close>

lemma MessageSendSchema_accepts:
  "MessageSendSchema \<lparr>msp_userId = Some u, msp_text = Some t\<rparr> =
     (if is_uuid u \<and> 1 \<le> length t then Some \<lparr>msd_userId = u, msd_text = trim
         t\<rparr> else None)"
  by (simp add: MessageSendSchema_def zod_string_def)

lemma SessionStartSchema_accepts:
  "SessionStartSchema \<lparr>ssp_userId = Some u, ssp_nickname = Some n\<rparr> =
     (if is_uuid u \<and> 1 \<le> length n \<and> length n \<le> 20
      then Some \<lparr>ssd_userId = u, ssd_nickname = trim n\<rparr> else None)"
  by (simp add: SessionStartSchema_def zod_string_def)

lemma invalid_session_start_changes_nothing:
  "SessionStartSchema payload = None \<Longrightarrow>
     session_start md5 socket payload now st =
       (st, [To_socket socket
               (Error_invalid_payload [(''message'', JString
                   ''Invalid payload for session:start'')])])"
  by (simp add: session_start_def)

lemma invalid_message_send_changes_nothing:
  "Map_get (connectedClients st) socket = Some cd \<Longrightarrow> MessageSendSchema payload =
      None \<Longrightarrow>
     message_send toUpper socket payload now messageId infer st =
       (st, [To_socket socket (Error_invalid_payload [(''message'', JString
           ''Invalid payload'')])])"
  by (simp add: message_send_def)

lemma mismatched_message_send_changes_nothing:
  "Map_get (connectedClients st) socket = Some cd \<Longrightarrow> MessageSendSchema payload =
      Some d \<Longrightarrow>
     msd_userId d \<noteq> c_userId cd \<Longrightarrow>
     message_send toUpper socket payload now messageId infer st =
       (st, [To_socket socket (Error_invalid_payload [(''message'', JString
           ''User ID mismatch'')])])"
  by (simp add: message_send_def)

text \<open>
  C7. A connection with a session sends a message whose text is three spaces. The schema checks
  \<open>min(1)\<close> on the text as received and trims afterwards, so the payload passes: a
  message with the empty text is stored and broadcast, where the claim has a whitespace-only
  text rejected with an invalid-payload signal and no change of state.
\<close>

theorem whitespace_only_text_is_accepted:
  "MessageSendSchema \<lparr>msp_userId = Some sample_user, msp_text = Some ''   ''\<rparr> =
     Some \<lparr>msd_userId = sample_user, msd_text = ''''\<rparr> \<and>
   message_send sample_toUpper ''sockA'' \<lparr>msp_userId = Some sample_user, msp_text = Some ''   ''\<rparr>
       2000 ''m1'' Call_throws joined =
     (joined
        \<lparr>rateLimits :=
           (rateLimits joined)(sample_user \<mapsto> \<lparr>l_count = 1, l_startTime =
               2000\<rparr>),
         messages :=
           [\<lparr>m_id = ''m1'', m_userId = sample_user, m_nicknameSnapshot = ''Verifier'',
             m_text = '''', m_createdAt = 2000, m_mood = ''NEUTRAL'', m_intensity = 0,
             m_seed = None, m_moodUpdatedAt = None\<rparr>],
         users := (users joined)(sample_user \<mapsto>
           \<lparr>u_id = sample_user, u_nickname = ''Verifier'', u_assignment = CONTROL,
            u_createdAt = 1000, u_lastSeenAt = Some 2000\<rparr>)\<rparr>,
      [To_all (Message_new
         \<lparr>dto_id = ''m1'', dto_userId = sample_user, dto_nicknameSnapshot = ''Verifier'',
          dto_text = '''', dto_createdAt = 2000, dto_mood = ''NEUTRAL'',
          dto_intensity = 0\<rparr>)])"
  by (simp add: exec_foldl initial_state_def schema_defs handler_defs getAssignment_def
      parseInt16_def hex_digit_def Let_def)

section \<open>Sending a message\<close>

lemma jobs_step: "jobs (fst (step md5 toUpper e st)) = jobs st"
proof (cases e)
  case (Session_start socket payload now)
  then show ?thesis
    by (simp add: session_start_def Let_def split: option.splits)
next
  case (Message_send socket payload now messageId infer)
  then show ?thesis
    by (simp add: message_send_def Let_def split: option.splits prod.splits)
next
  case (Disconnect socket now)
  then show ?thesis
    by (simp add: disconnect_def Let_def split: option.splits)
qed

lemma exec_jobs: "jobs (exec md5 toUpper evs) = []"
  by (induction evs rule: rev_induct) (simp_all add: exec_Nil exec_snoc jobs_step
      initial_state_def)

lemma users_stay: "users st x \<noteq> None \<Longrightarrow> users (fst (step md5 toUpper e st)) x
    \<noteq> None"
proof (cases e)
  case (Session_start socket payload now)
  assume "users st x \<noteq> None"
  with Session_start show ?thesis
    by (auto simp add: session_start_def upsertUser_def Let_def split: option.splits)
next
  case (Message_send socket payload now messageId infer)
  assume "users st x \<noteq> None"
  with Message_send show ?thesis
    by (auto simp add: message_send_def Let_def split: option.splits prod.splits)
next
  case (Disconnect socket now)
  assume "users st x \<noteq> None"
  with Disconnect show ?thesis
    by (auto simp add: disconnect_def Let_def split: option.splits)
qed

lemma clients_step:
  assumes "(sk, cd) \<in> set (connectedClients (fst (step md5 toUpper e st)))"
  shows "(sk, cd) \<in> set (connectedClients st) \<or> users (fst (step md5 toUpper e st)) (c_userId cd)
      \<noteq> None"
proof (cases e)
  case (Session_start socket payload now)
  show ?thesis
  proof (cases "SessionStartSchema payload")
    case None
    with assms Session_start show ?thesis by (simp add: session_start_def)
  next
    case (Some d)
    with assms Session_start
    have "(sk, cd) \<in> set (Map_set socket
             \<lparr>c_userId = ssd_userId d, c_nickname = ssd_nickname d,
              c_assignment = getAssignment md5 (ssd_userId d),
              c_sessionId = s_id (case findOpenSession (ssd_userId d) (sessions st) of
                                     None \<Rightarrow> createSession (ssd_userId d) now (sessions
                                         st)
                                   | Some r \<Rightarrow> r)\<rparr> (connectedClients st))"
      by (simp add: session_start_def Let_def split: option.splits)
    then have "(sk, cd) \<in> set (connectedClients st) \<or> c_userId cd = ssd_userId d"
      using Map_set_entries by fastforce
    moreover have "users (fst (step md5 toUpper e st)) (ssd_userId d) \<noteq> None"
      using Session_start Some
      by (simp add: session_start_def upsertUser_def Let_def split: option.splits)
    ultimately show ?thesis by auto
  qed
next
  case (Message_send socket payload now messageId infer)
  with assms show ?thesis
    by (simp add: message_send_def Let_def split: option.splits prod.splits if_splits)
next
  case (Disconnect socket now)
  with assms show ?thesis
    by (auto simp add: disconnect_def Map_delete_def Let_def split: option.splits if_splits)
qed

lemma exec_clients_have_users:
  "(sk, cd) \<in> set (connectedClients (exec md5 toUpper evs)) \<Longrightarrow> users (exec md5 toUpper evs)
      (c_userId cd) \<noteq> None"
proof (induction evs rule: rev_induct)
  case Nil
  then show ?case by (simp add: exec_Nil initial_state_def)
next
  case (snoc e evs)
  from snoc.prems have "(sk, cd) \<in> set (connectedClients (fst (step md5 toUpper e (exec md5 toUpper evs))))"
    by (simp add: exec_snoc)
  then have "(sk, cd) \<in> set (connectedClients (exec md5 toUpper evs)) \<or>
      users (fst (step md5 toUpper e (exec md5 toUpper evs))) (c_userId cd) \<noteq> None"
    by (rule clients_step)
  then show ?case
    using snoc.IH users_stay [of "exec md5 toUpper evs" "c_userId cd" md5 toUpper e] by (auto simp add: exec_snoc)
qed

lemma exec_client_user:
  assumes "Map_get (connectedClients (exec md5 toUpper evs)) socket = Some cd"
  shows "\<exists>u. users (exec md5 toUpper evs) (c_userId cd) = Some u"
proof -
  from assms have "(socket, cd) \<in> set (connectedClients (exec md5 toUpper evs))"
    by (simp add: Map_get_def map_of_SomeD)
  then show ?thesis using exec_clients_have_users by blast
qed

lemma message_send_admitted:
  assumes "Map_get (connectedClients st) socket = Some cd"
    and "MessageSendSchema payload = Some d"
    and "msd_userId d = c_userId cd"
    and "rate_limit_check (rateLimits st (c_userId cd)) now = Some l"
    and "users st (c_userId cd) = Some u"
    and "messageId \<notin> set (map m_id (messages st))"
  shows "message_send toUpper socket payload now messageId infer st =
     (st\<lparr>rateLimits := (rateLimits st)(c_userId cd \<mapsto> l),
         messages := messages st @
           [\<lparr>m_id = messageId, m_userId = c_userId cd, m_nicknameSnapshot = c_nickname cd,
             m_text = msd_text d, m_createdAt = now, m_mood = fst (infer_mood toUpper infer),
             m_intensity = snd (infer_mood toUpper infer), m_seed = None, m_moodUpdatedAt = None\<rparr>],
         users := (users st)(c_userId cd \<mapsto> u\<lparr>u_lastSeenAt := Some
             now\<rparr>)\<rparr>,
      [To_all (Message_new
         \<lparr>dto_id = messageId, dto_userId = c_userId cd, dto_nicknameSnapshot = c_nickname
             cd,
          dto_text = msd_text d, dto_createdAt = now, dto_mood = fst (infer_mood toUpper infer),
          dto_intensity = snd (infer_mood toUpper infer)\<rparr>)])"
  using assms by (simp add: message_send_def Let_def split: prod.splits)


text \<open>
  C10. In a state the server reaches, take a send that is admitted: the connection has started a
  session, the payload is valid and names the connection's user, the rate limit admits it and
  the message id is new. When the call to the classifier throws or answers with a response that
  is not ok, the message is stored with mood NEUTRAL and intensity 0 and broadcast as
  \<open>message:new\<close> with these values. In any state at all, such a call leaves the
  handler doing exactly what it does when the classifier answers NEUTRAL with intensity 0
  (\<open>toUpperCase\<close> leaves the string NEUTRAL as it is), and what it does is the same
  whatever \<open>toUpperCase\<close> makes of other strings: the outage never makes a send fail or be
  dropped.
\<close>

theorem classifier_outage_keeps_send:
  assumes "infer = Call_throws \<or> infer = Response_not_ok"
    and "Map_get (connectedClients (exec md5 toUpper evs)) socket = Some cd"
    and "MessageSendSchema payload = Some d"
    and "msd_userId d = c_userId cd"
    and "rate_limit_check (rateLimits (exec md5 toUpper evs) (c_userId cd)) now = Some l"
    and "messageId \<notin> set (map m_id (messages (exec md5 toUpper evs)))"
  shows "messages (fst (message_send toUpper socket payload now messageId infer
                         (exec md5 toUpper evs))) =
           messages (exec md5 toUpper evs) @
             [\<lparr>m_id = messageId, m_userId = c_userId cd, m_nicknameSnapshot = c_nickname cd,
               m_text = msd_text d, m_createdAt = now, m_mood = ''NEUTRAL'', m_intensity = 0,
               m_seed = None, m_moodUpdatedAt = None\<rparr>] \<and>
         snd (message_send toUpper socket payload now messageId infer (exec md5 toUpper evs)) =
           [To_all (Message_new
              \<lparr>dto_id = messageId, dto_userId = c_userId cd,
               dto_nicknameSnapshot = c_nickname cd, dto_text = msd_text d,
               dto_createdAt = now, dto_mood = ''NEUTRAL'', dto_intensity = 0\<rparr>)] \<and>
         (toUpper ''NEUTRAL'' = ''NEUTRAL'' \<longrightarrow>
            message_send toUpper socket payload now messageId infer st =
              message_send toUpper socket payload now messageId
                (Response_ok (Some ''NEUTRAL'') 0) st) \<and>
         message_send toUpper socket payload now messageId infer st =
           message_send toUpper' socket payload now messageId infer st"
proof -
  from assms(2) obtain u where u: "users (exec md5 toUpper evs) (c_userId cd) = Some u"
    using exec_client_user by blast
  from assms(1) have neutral: "\<And>f. infer_mood f infer = (''NEUTRAL'', 0)"
    by (auto simp add: infer_mood_def)
  have answer: "toUpper ''NEUTRAL'' = ''NEUTRAL'' \<longrightarrow>
      message_send toUpper socket payload now messageId infer st =
        message_send toUpper socket payload now messageId (Response_ok (Some ''NEUTRAL'') 0) st"
  proof
    assume "toUpper ''NEUTRAL'' = ''NEUTRAL''"
    then have "infer_mood toUpper (Response_ok (Some ''NEUTRAL'') 0) = infer_mood toUpper infer"
      by (simp add: neutral) (simp add: infer_mood_def)
    then show "message_send toUpper socket payload now messageId infer st =
        message_send toUpper socket payload now messageId (Response_ok (Some ''NEUTRAL'') 0) st"
      by (simp only: message_send_def)
  qed
  have "infer_mood toUpper infer = infer_mood toUpper' infer"
    by (simp only: neutral)
  then have any: "message_send toUpper socket payload now messageId infer st =
      message_send toUpper' socket payload now messageId infer st"
    by (simp only: message_send_def)
  from message_send_admitted [OF assms(2) assms(3) assms(4) assms(5) u assms(6),
      where infer = infer and toUpper = toUpper]
  have "messages (fst (message_send toUpper socket payload now messageId infer
                         (exec md5 toUpper evs))) =
           messages (exec md5 toUpper evs) @
             [\<lparr>m_id = messageId, m_userId = c_userId cd, m_nicknameSnapshot = c_nickname cd,
               m_text = msd_text d, m_createdAt = now, m_mood = ''NEUTRAL'', m_intensity = 0,
               m_seed = None, m_moodUpdatedAt = None\<rparr>] \<and>
         snd (message_send toUpper socket payload now messageId infer (exec md5 toUpper evs)) =
           [To_all (Message_new
              \<lparr>dto_id = messageId, dto_userId = c_userId cd,
               dto_nicknameSnapshot = c_nickname cd, dto_text = msd_text d,
               dto_createdAt = now, dto_mood = ''NEUTRAL'', dto_intensity = 0\<rparr>)]"
    by (simp add: neutral)
  with answer any show ?thesis by (intro conjI) simp_all
qed

theorem classifier_outage_keeps_send_witness:
  "messages (fst (message_send sample_toUpper ''sockA'' sample_hello 2000 ''m1'' Call_throws
                    joined)) =
     messages joined @
       [\<lparr>m_id = ''m1'', m_userId = sample_user, m_nicknameSnapshot = ''Verifier'',
         m_text = ''hello'', m_createdAt = 2000, m_mood = ''NEUTRAL'', m_intensity = 0,
         m_seed = None, m_moodUpdatedAt = None\<rparr>] \<and>
   snd (message_send sample_toUpper ''sockA'' sample_hello 2000 ''m1'' Call_throws joined) =
     [To_all (Message_new
        \<lparr>dto_id = ''m1'', dto_userId = sample_user, dto_nicknameSnapshot = ''Verifier'',
         dto_text = ''hello'', dto_createdAt = 2000, dto_mood = ''NEUTRAL'',
         dto_intensity = 0\<rparr>)] \<and>
   message_send sample_toUpper ''sockA'' sample_hello 2000 ''m1'' Call_throws initial_state =
     message_send sample_toUpper ''sockA'' sample_hello 2000 ''m1''
       (Response_ok (Some ''NEUTRAL'') 0) initial_state"
proof -
  have outage: "Call_throws = Call_throws \<or> Call_throws = Response_not_ok"
    by simp
  have upper: "sample_toUpper ''NEUTRAL'' = ''NEUTRAL''"
    by (simp add: sample_toUpper_def)
  show ?thesis
    using classifier_outage_keeps_send [OF outage joined_client sample_hello_valid
        sample_hello_user joined_rate_limit joined_messages,
        where st = initial_state and toUpper' = sample_toUpper]
      upper
    by simp
qed

text \<open>
  C3 (as the code has it). No handler writes the job table: it is empty in every state the
  server reaches. An admitted send stores exactly one message, the one with the new id, and
  creates no job with it.
\<close>

theorem send_stores_message_without_job:
  assumes "Map_get (connectedClients (exec md5 toUpper evs)) socket = Some cd"
    and "MessageSendSchema payload = Some d"
    and "msd_userId d = c_userId cd"
    and "rate_limit_check (rateLimits (exec md5 toUpper evs) (c_userId cd)) now = Some l"
    and "messageId \<notin> set (map m_id (messages (exec md5 toUpper evs)))"
  shows "jobs (exec md5 toUpper evs) = [] \<and>
         map m_id (messages (fst (message_send toUpper socket payload now messageId infer (exec md5 toUpper
             evs)))) =
           map m_id (messages (exec md5 toUpper evs)) @ [messageId] \<and>
         jobs (fst (message_send toUpper socket payload now messageId infer (exec md5 toUpper evs))) = []"
proof -
  from assms(1) obtain u where u: "users (exec md5 toUpper evs) (c_userId cd) = Some u"
    using exec_client_user by blast
  have "jobs (fst (step md5 toUpper (Message_send socket payload now messageId infer) (exec md5 toUpper evs))) =
      jobs (exec md5 toUpper evs)"
    by (rule jobs_step)
  then have "jobs (fst (message_send toUpper socket payload now messageId infer (exec md5 toUpper evs))) = []"
    by (simp add: exec_jobs)
  with message_send_admitted [OF assms(1) assms(2) assms(3) assms(4) u assms(5), where infer = infer and toUpper = toUpper]
  show ?thesis by (simp add: exec_jobs)
qed

theorem send_stores_message_without_job_witness:
  "jobs joined = [] \<and>
   map m_id (messages (fst (message_send sample_toUpper ''sockA'' sample_hello 2000 ''m1''
       (Response_ok (Some ''joy'') 0.8) joined))) =
     map m_id (messages joined) @ [''m1''] \<and>
   jobs (fst (message_send sample_toUpper ''sockA'' sample_hello 2000 ''m1''
       (Response_ok (Some ''joy'') 0.8) joined)) = []"
  using send_stores_message_without_job [OF joined_client sample_hello_valid sample_hello_user
      joined_rate_limit joined_messages, where infer = "Response_ok (Some ''joy'') 0.8"]
  by simp

theorem send_creates_job_counterexample:
  "map m_id (messages (exec sample_digest sample_toUpper
      [Session_start ''sockA'' sample_join 1000,
       Message_send ''sockA'' sample_hello 2000 ''m1'' (Response_ok (Some ''joy'') 0.8)])) =
     [''m1''] \<and>
   jobs (exec sample_digest sample_toUpper
      [Session_start ''sockA'' sample_join 1000,
       Message_send ''sockA'' sample_hello 2000 ''m1'' (Response_ok (Some ''joy'') 0.8)]) = []"
  by (simp add: exec_foldl initial_state_def schema_defs handler_defs Let_def)

text \<open>
  C5 (as the code has it). The classifier is called inside the handler, before the message is
  stored. The \<open>message:new\<close> broadcast of an admitted send carries what that call
  gave: what \<open>toUpperCase\<close> makes of the classifier's mood, and its intensity, when the
  response was ok and had a mood, and NEUTRAL with intensity 0 otherwise. It is the only event of the send, and no step of
  the server emits a \<open>message:mood_updated\<close> notification.
\<close>

theorem broadcast_carries_inline_classification:
  assumes "Map_get (connectedClients (exec md5 toUpper evs)) socket = Some cd"
    and "MessageSendSchema payload = Some d"
    and "msd_userId d = c_userId cd"
    and "rate_limit_check (rateLimits (exec md5 toUpper evs) (c_userId cd)) now = Some l"
    and "messageId \<notin> set (map m_id (messages (exec md5 toUpper evs)))"
  shows "snd (message_send toUpper socket payload now messageId infer (exec md5 toUpper evs)) =
           [To_all (Message_new
              \<lparr>dto_id = messageId, dto_userId = c_userId cd,
               dto_nicknameSnapshot = c_nickname cd, dto_text = msd_text d,
               dto_createdAt = now,
               dto_mood = (case infer of
                             Response_ok (Some mood) intensity \<Rightarrow> toUpper mood
                           | _ \<Rightarrow> ''NEUTRAL''),
               dto_intensity = (case infer of
                                  Response_ok (Some mood) intensity \<Rightarrow> intensity
                                | _ \<Rightarrow> 0)\<rparr>)] \<and>
         To_all (Message_mood_updated a b c) \<notin> set (snd (step md5 toUpper e st)) \<and>
         To_socket sk (Message_mood_updated a b c) \<notin> set (snd (step md5 toUpper e st))"
proof -
  from assms(1) obtain u where u: "users (exec md5 toUpper evs) (c_userId cd) = Some u"
    using exec_client_user by blast
  have mood: "fst (infer_mood toUpper infer) =
      (case infer of Response_ok (Some mood) intensity \<Rightarrow> toUpper mood | _ \<Rightarrow> ''NEUTRAL'')"
    by (simp add: infer_mood_def split: infer_outcome.splits option.splits)
  have intensity: "snd (infer_mood toUpper infer) =
      (case infer of Response_ok (Some mood) intensity \<Rightarrow> intensity | _ \<Rightarrow> 0)"
    by (simp add: infer_mood_def split: infer_outcome.splits option.splits)
  have never: "To_all (Message_mood_updated a b c) \<notin> set (snd (step md5 toUpper e st)) \<and>
      To_socket sk (Message_mood_updated a b c) \<notin> set (snd (step md5 toUpper e st))"
  proof (cases e)
    case (Session_start socket payload now)
    then show ?thesis
      by (simp add: session_start_def Let_def split: option.splits prod.splits)
  next
    case (Message_send socket payload now messageId infer)
    then show ?thesis
      by (simp add: message_send_def Let_def split: option.splits prod.splits)
  next
    case (Disconnect socket now)
    then show ?thesis
      by (simp add: disconnect_def Let_def split: option.splits)
  qed
  from message_send_admitted [OF assms(1) assms(2) assms(3) assms(4) u assms(5),
      where infer = infer and toUpper = toUpper]
  have "snd (message_send toUpper socket payload now messageId infer (exec md5 toUpper evs)) =
      [To_all (Message_new
         \<lparr>dto_id = messageId, dto_userId = c_userId cd, dto_nicknameSnapshot = c_nickname cd,
          dto_text = msd_text d, dto_createdAt = now, dto_mood = fst (infer_mood toUpper infer),
          dto_intensity = snd (infer_mood toUpper infer)\<rparr>)]"
    by simp
  with never show ?thesis by (simp only: mood intensity) simp
qed

theorem broadcast_carries_inline_classification_witness:
  "snd (message_send sample_toUpper ''sockA'' sample_hello 2000 ''m1''
          (Response_ok (Some ''joy'') 0.8) joined) =
     [To_all (Message_new
        \<lparr>dto_id = ''m1'', dto_userId = sample_user, dto_nicknameSnapshot = ''Verifier'',
         dto_text = ''hello'', dto_createdAt = 2000, dto_mood = ''JOY'',
         dto_intensity = 0.8\<rparr>)]"
  using broadcast_carries_inline_classification [OF joined_client sample_hello_valid
      sample_hello_user joined_rate_limit joined_messages,
      where infer = "Response_ok (Some ''joy'') 0.8" and a = "''x''" and b = "''y''" and c = 0
        and e = "Disconnect ''sockA'' 3000" and st = initial_state and sk = "''sockA''"]
  by (simp add: sample_toUpper_def)

theorem broadcast_is_neutral_counterexample:
  "snd (step sample_digest sample_toUpper
          (Message_send ''sockA'' sample_hello 2000 ''m1'' (Response_ok (Some ''joy'') 0.8))
          joined) =
     [To_all (Message_new
        \<lparr>dto_id = ''m1'', dto_userId = sample_user, dto_nicknameSnapshot = ''Verifier'',
         dto_text = ''hello'', dto_createdAt = 2000, dto_mood = ''JOY'',
         dto_intensity = 0.8\<rparr>)] \<and>
   snd (step sample_digest sample_toUpper
          (Message_send ''sockA'' sample_hello 2000 ''m1'' (Response_ok (Some ''joy'') 0.8))
          joined) \<noteq>
     [To_all (Message_new
        \<lparr>dto_id = ''m1'', dto_userId = sample_user, dto_nicknameSnapshot = ''Verifier'',
         dto_text = ''hello'', dto_createdAt = 2000, dto_mood = ''NEUTRAL'',
         dto_intensity = 0\<rparr>)]"
  by (simp add: exec_foldl initial_state_def schema_defs handler_defs sample_toUpper_def Let_def)

section \<open>The rate limit\<close>

lemma rate_limit_first: "rate_limit_check None now = Some \<lparr>l_count = 1, l_startTime =
    now\<rparr>"
  by (simp add: rate_limit_check_def RATE_LIMIT_MAX_MESSAGES_def)

lemma rate_limit_within:
  "now - l_startTime l \<le> 5000 \<Longrightarrow>
     rate_limit_check (Some l) now = (if 5 \<le> l_count l then None else Some (l\<lparr>l_count
         := l_count l + 1\<rparr>))"
  by (simp add: rate_limit_check_def RATE_LIMIT_MAX_MESSAGES_def RATE_LIMIT_WINDOW_MS_def)

lemma rate_limit_elapsed:
  "now - l_startTime l > 5000 \<Longrightarrow>
     rate_limit_check (Some l) now = Some \<lparr>l_count = 1, l_startTime = now\<rparr>"
  by (simp add: rate_limit_check_def RATE_LIMIT_MAX_MESSAGES_def RATE_LIMIT_WINDOW_MS_def)

lemma message_send_refused:
  assumes "Map_get (connectedClients st) socket = Some cd"
    and "MessageSendSchema payload = Some d"
    and "msd_userId d = c_userId cd"
    and "rate_limit_check (rateLimits st (c_userId cd)) now = None"
  shows "message_send toUpper socket payload now messageId infer st =
     (st, [To_socket socket
             (Error_rate_limited [(''message'', JString ''Too many messages. Please wait.'')])])"
  using assms by (simp add: message_send_def Let_def)

text \<open>
  C6 (as the code has it). With five messages per window of 5000 ms: the sends of a user at
  \<open>t1\<close> to \<open>t5\<close>, none more than 5000 ms after \<open>t1\<close>, are
  admitted, a sixth send within 5000 ms of \<open>t1\<close> is refused, and a send more than
  5000 ms after \<open>t1\<close> is admitted again. Within the window an admitted send adds one
  to the count and a send is refused once the count has reached five; at a refusal the window's
  remaining time, \<open>WINDOW_MS - (now - windowStart)\<close>, is not negative (it is 0 at
  the very end of the window). After the window the entry restarts at count 1 and the time of
  the send. A refused send changes no state and emits to its connection one
  \<open>error:rate_limited\<close> event whose payload is the fixed message alone: no
  \<open>retryAfterMs\<close> is computed or reported.
\<close>

theorem rate_limit_window:
  "(t2 - t1 \<le> 5000 \<and> t3 - t1 \<le> 5000 \<and> t4 - t1 \<le> 5000 \<and> t5 - t1 \<le>
      5000 \<and> t6 - t1 \<le> 5000 \<and>
    t7 - t1 > 5000 \<longrightarrow>
      admitted_sends None [t1, t2, t3, t4, t5, t6, t7] =
        [True, True, True, True, True, False, True]) \<and>
   rate_limit_check None now = Some \<lparr>l_count = 1, l_startTime = now\<rparr> \<and>
   (now1 - l_startTime l1 \<le> 5000 \<and> l_count l1 < 5 \<longrightarrow>
      rate_limit_check (Some l1) now1 = Some (l1\<lparr>l_count := l_count l1 + 1\<rparr>)) \<and>
   (now2 - l_startTime l2 \<le> 5000 \<and> 5 \<le> l_count l2 \<longrightarrow>
      rate_limit_check (Some l2) now2 = None \<and>
      0 \<le> RATE_LIMIT_WINDOW_MS - (now2 - l_startTime l2)) \<and>
   (now3 - l_startTime l3 > 5000 \<longrightarrow>
      rate_limit_check (Some l3) now3 = Some \<lparr>l_count = 1, l_startTime = now3\<rparr>)
          \<and>
   (Map_get (connectedClients st) socket = Some cd \<and> MessageSendSchema payload = Some d
       \<and>
    msd_userId d = c_userId cd \<and>
    rate_limit_check (rateLimits st (c_userId cd)) now4 = None \<longrightarrow>
      message_send toUpper socket payload now4 messageId infer st =
        (st, [To_socket socket
                (Error_rate_limited
                   [(''message'', JString ''Too many messages. Please wait.'')])]) \<and>
      payload_field
        (To_socket socket
           (Error_rate_limited [(''message'', JString ''Too many messages. Please wait.'')]))
        ''retryAfterMs'' = None)"
proof -
  have seq: "t2 - t1 \<le> 5000 \<and> t3 - t1 \<le> 5000 \<and> t4 - t1 \<le> 5000 \<and> t5 - t1
      \<le> 5000 \<and>
      t6 - t1 \<le> 5000 \<and> t7 - t1 > 5000 \<longrightarrow>
      admitted_sends None [t1, t2, t3, t4, t5, t6, t7] =
        [True, True, True, True, True, False, True]"
    by (simp add: rate_limit_first rate_limit_within rate_limit_elapsed)
  have within: "now1 - l_startTime l1 \<le> 5000 \<and> l_count l1 < 5 \<longrightarrow>
      rate_limit_check (Some l1) now1 = Some (l1\<lparr>l_count := l_count l1 + 1\<rparr>)"
    by (simp add: rate_limit_within)
  have full: "now2 - l_startTime l2 \<le> 5000 \<and> 5 \<le> l_count l2 \<longrightarrow>
      rate_limit_check (Some l2) now2 = None \<and>
      0 \<le> RATE_LIMIT_WINDOW_MS - (now2 - l_startTime l2)"
    by (simp add: rate_limit_within RATE_LIMIT_WINDOW_MS_def)
  have elapsed: "now3 - l_startTime l3 > 5000 \<longrightarrow>
      rate_limit_check (Some l3) now3 = Some \<lparr>l_count = 1, l_startTime = now3\<rparr>"
    by (simp add: rate_limit_elapsed)
  have refused: "Map_get (connectedClients st) socket = Some cd \<and>
      MessageSendSchema payload = Some d \<and> msd_userId d = c_userId cd \<and>
      rate_limit_check (rateLimits st (c_userId cd)) now4 = None \<longrightarrow>
      message_send toUpper socket payload now4 messageId infer st =
        (st, [To_socket socket
                (Error_rate_limited
                   [(''message'', JString ''Too many messages. Please wait.'')])]) \<and>
      payload_field
        (To_socket socket
           (Error_rate_limited [(''message'', JString ''Too many messages. Please wait.'')]))
        ''retryAfterMs'' = None"
    using message_send_refused [where st = st and socket = socket and cd = cd and payload = payload and d = d
        and now = now4 and messageId = messageId and infer = infer and toUpper = toUpper] by simp
  from seq rate_limit_first [of now] within full elapsed refused show ?thesis
    by (intro conjI)
qed

theorem rate_limit_window_witness:
  "admitted_sends None [2001, 2002, 2003, 2004, 2005, 3000, 7002] =
     [True, True, True, True, True, False, True] \<and>
   rate_limit_check None 2001 = Some \<lparr>l_count = 1, l_startTime = 2001\<rparr> \<and>
   rate_limit_check (Some \<lparr>l_count = 4, l_startTime = 2001\<rparr>) 2005 =
     Some \<lparr>l_count = 5, l_startTime = 2001\<rparr> \<and>
   rate_limit_check (Some \<lparr>l_count = 5, l_startTime = 2001\<rparr>) 3000 = None \<and>
   rate_limit_check (Some \<lparr>l_count = 5, l_startTime = 2001\<rparr>) 7002 =
     Some \<lparr>l_count = 1, l_startTime = 7002\<rparr> \<and>
   message_send sample_toUpper ''sockA'' sample_hello 3000 ''m6'' Call_throws five_sent =
     (five_sent,
      [To_socket ''sockA''
         (Error_rate_limited [(''message'', JString ''Too many messages. Please wait.'')])])"
proof -
  have client: "Map_get (connectedClients five_sent) ''sockA'' = Some sample_client"
    by (simp add: exec_foldl initial_state_def schema_defs handler_defs getAssignment_def
        parseInt16_def hex_digit_def Let_def)
  have full: "rate_limit_check (rateLimits five_sent sample_user) 3000 = None"
    by (simp add: exec_foldl initial_state_def schema_defs handler_defs Let_def)
  show ?thesis
    using rate_limit_window [where ?t1.0 = 2001 and ?t2.0 = 2002 and ?t3.0 = 2003
        and ?t4.0 = 2004 and ?t5.0 = 2005 and ?t6.0 = 3000 and ?t7.0 = 7002 and now = 2001
        and ?l1.0 = "\<lparr>l_count = 4, l_startTime = 2001\<rparr>" and ?now1.0 = 2005
        and ?l2.0 = "\<lparr>l_count = 5, l_startTime = 2001\<rparr>" and ?now2.0 = 3000
        and ?l3.0 = "\<lparr>l_count = 5, l_startTime = 2001\<rparr>" and ?now3.0 = 7002
        and st = five_sent and socket = "''sockA''" and cd = sample_client
        and payload = sample_hello and d = sample_hello_data
        and ?now4.0 = 3000 and messageId = "''m6''" and infer = Call_throws]
      client sample_hello_valid full
    by (simp del: admitted_sends.simps)
qed

theorem sixth_send_reports_retry_after_counterexample:
  "snd (step sample_digest sample_toUpper (Message_send ''sockA'' sample_hello 3000 ''m6'' Call_throws)
          five_sent) =
     [To_socket ''sockA''
        (Error_rate_limited [(''message'', JString ''Too many messages. Please wait.'')])] \<and>
   payload_field
     (hd (snd (step sample_digest sample_toUpper (Message_send ''sockA'' sample_hello 3000 ''m6'' Call_throws)
                 five_sent)))
     ''retryAfterMs'' = None"
  by (simp add: exec_foldl initial_state_def schema_defs handler_defs Let_def)

section \<open>The experiment group of a user\<close>

lemma hash_step_parity: "odd (hash_step h c) \<longleftrightarrow> (odd h \<noteq> odd (of_char c
    :: nat))"
  by (simp add: hash_step_def push_bit_eq_mult)

lemma sint_parity: "odd (sint (w :: 32 word)) \<longleftrightarrow> odd w"
  using bit_sint_iff [of w 0] by (simp add: bit_0)

lemma abs_mod_2: "\<bar>x :: int\<bar> mod 2 = 1 \<longleftrightarrow> odd x"
proof -
  have "\<bar>x\<bar> mod 2 = 1 \<longleftrightarrow> odd \<bar>x\<bar>"
    by (simp only: odd_iff_mod_2_eq_one)
  then show ?thesis by simp
qed


lemma foldl_hash_step_parity:
  "odd (foldl hash_step h userId) \<longleftrightarrow> (odd h \<noteq> odd (sum_list (map of_char
      userId) :: nat))"
proof (induction userId arbitrary: h)
  case Nil
  show ?case by simp
next
  case (Cons c cs)
  have "odd (foldl hash_step h (c # cs)) \<longleftrightarrow>
      (odd (hash_step h c) \<noteq> odd (sum_list (map of_char cs) :: nat))"
    by (simp only: foldl_Cons Cons.IH)
  also have "\<dots> \<longleftrightarrow> ((odd h \<noteq> odd (of_char c :: nat)) \<noteq> odd
      (sum_list (map of_char cs) :: nat))"
    by (simp only: hash_step_parity)
  also have "\<dots> \<longleftrightarrow> (odd h \<noteq> odd (sum_list (map of_char (c # cs)) ::
      nat))"
    by auto
  finally show ?case .
qed

lemma odd_client_hash:
  "odd (client_hash userId) \<longleftrightarrow> odd (sum_list (map of_char userId) :: nat)"
  by (simp add: client_hash_def foldl_hash_step_parity)

lemma client_hash_parity:
  "\<bar>sint (client_hash userId)\<bar> mod 2 = 1 \<longleftrightarrow> odd (sum_list (map
      of_char userId) :: nat)"
  by (simp add: abs_mod_2 sint_parity odd_client_hash)


text \<open>
  C8 (as the code has it). The server's \<open>getAssignment\<close> depends on the identifier
  only through its digest: CONTROL when the first hexadecimal digit of the digest is even,
  TREATMENT otherwise; it is total. The client's \<open>getAssignment\<close> returns the
  override held in local storage when that is CONTROL or TREATMENT. Without such an override it
  is a function of the identifier alone: TREATMENT exactly when the 32-bit hash is odd, which is
  when the sum of the identifier's character codes is odd (so the width of the hash does not
  matter), CONTROL otherwise.
\<close>

theorem assignment_is_hash_parity_unless_overridden:
  "getAssignment md5 userId =
     (case md5 userId of
        [] \<Rightarrow> TREATMENT
      | c # rest \<Rightarrow> (case hex_digit c of None \<Rightarrow> TREATMENT
                     | Some n \<Rightarrow> if even n then CONTROL else TREATMENT)) \<and>
   (md5 userId = md5 userId' \<longrightarrow> getAssignment md5 userId = getAssignment md5
       userId') \<and>
   client_getAssignment None userId =
     (if odd (client_hash userId) then TREATMENT else CONTROL) \<and>
   client_getAssignment None userId =
     (if odd (sum_list (map of_char userId) :: nat) then TREATMENT else CONTROL) \<and>
   client_getAssignment (Some ''CONTROL'') userId = CONTROL \<and>
   client_getAssignment (Some ''TREATMENT'') userId = TREATMENT \<and>
   (override \<noteq> Some ''CONTROL'' \<and> override \<noteq> Some ''TREATMENT''
       \<longrightarrow>
      client_getAssignment override userId = client_getAssignment None userId)"
proof -
  have server: "getAssignment md5 userId =
     (case md5 userId of
        [] \<Rightarrow> TREATMENT
      | c # rest \<Rightarrow> (case hex_digit c of None \<Rightarrow> TREATMENT
                     | Some n \<Rightarrow> if even n then CONTROL else TREATMENT))"
    by (simp add: getAssignment_def parseInt16_def even_iff_mod_2_eq_zero
        split: list.splits option.splits)
  have same: "md5 userId = md5 userId' \<longrightarrow> getAssignment md5 userId = getAssignment
      md5 userId'"
    by (simp add: getAssignment_def)
  have empty: "client_hash [] = 0"
    by (simp add: client_hash_def)
  have word: "client_getAssignment None userId =
      (if odd (client_hash userId) then TREATMENT else CONTROL)"
    by (cases userId) (simp_all add: client_getAssignment_def abs_mod_2 sint_parity empty)
  have codes: "client_getAssignment None userId =
      (if odd (sum_list (map of_char userId) :: nat) then TREATMENT else CONTROL)"
    by (cases userId) (simp_all add: client_getAssignment_def client_hash_parity)
  have over: "client_getAssignment (Some ''CONTROL'') userId = CONTROL \<and>
      client_getAssignment (Some ''TREATMENT'') userId = TREATMENT \<and>
      (override \<noteq> Some ''CONTROL'' \<and> override \<noteq> Some ''TREATMENT''
          \<longrightarrow>
         client_getAssignment override userId = client_getAssignment None userId)"
    by (simp add: client_getAssignment_def)
  from server same word codes over show ?thesis by (intro conjI) simp_all
qed

theorem assignment_is_hash_parity_unless_overridden_witness:
  "getAssignment sample_digest sample_user = CONTROL \<and>
   client_getAssignment None sample_user = TREATMENT \<and>
   client_getAssignment (Some ''CONTROL'') sample_user = CONTROL \<and>
   client_getAssignment (Some ''anything'') sample_user = TREATMENT"
  using assignment_is_hash_parity_unless_overridden
    [where ?md5.0 = sample_digest and userId = sample_user and userId' = sample_user
       and override = "Some ''anything''"]
  by (simp add: hex_digit_def odd_client_hash)

theorem assignment_depends_on_override_counterexample:
  "client_getAssignment None sample_user = TREATMENT \<and>
   client_getAssignment (Some ''CONTROL'') sample_user = CONTROL"
proof -
  have "odd (sum_list (map of_char sample_user) :: nat)"
    by simp
  then have "\<bar>sint (client_hash sample_user)\<bar> mod 2 = 1"
    by (simp add: client_hash_parity)
  then show ?thesis
    by (simp add: client_getAssignment_def)
qed

section \<open>The classification job queue: the state machine of a job\<close>

lemma job_step_attempts: "j_attempts j \<le> j_attempts (job_step j ev)"
  by (cases ev) (simp_all add: claim_job_def job_succeeded_def job_failed_def)

lemma job_run_attempts: "j_attempts j \<le> j_attempts (job_run j evs)"
proof (induction evs rule: rev_induct)
  case Nil
  show ?case by (simp add: job_run_def)
next
  case (snoc ev evs)
  have "j_attempts (job_run j evs) \<le> j_attempts (job_step (job_run j evs) ev)"
    by (rule job_step_attempts)
  with snoc show ?case by (simp add: job_run_def)
qed

lemma job_step_forward: "forward (j_status j) (j_status (job_step j ev))"
  by (cases ev; cases "j_status j")
    (simp_all add: forward_def claim_job_def job_succeeded_def job_failed_def)

lemma job_step_terminal: "j_status j = DONE \<or> j_status j = FAILED \<Longrightarrow> job_step j
    ev = j"
  by (cases ev) (auto simp add: claim_job_def job_succeeded_def job_failed_def)

lemma job_run_terminal: "j_status j = DONE \<or> j_status j = FAILED \<Longrightarrow> job_run j
    evs = j"
  by (induction evs) (simp_all add: job_run_def job_step_terminal)

lemma job_step_bound:
  assumes "j_attempts j \<le> 3 \<and> (j_status j = PENDING \<longrightarrow> j_attempts j < 3)"
  shows "j_attempts (job_step j ev) \<le> 3 \<and>
         (j_status (job_step j ev) = PENDING \<longrightarrow> j_attempts (job_step j ev) < 3)"
  using assms by (cases ev) (auto simp add: claim_job_def job_succeeded_def job_failed_def)

lemma job_run_bound:
  assumes "j_attempts j \<le> 3 \<and> (j_status j = PENDING \<longrightarrow> j_attempts j < 3)"
  shows "j_attempts (job_run j evs) \<le> 3 \<and>
         (j_status (job_run j evs) = PENDING \<longrightarrow> j_attempts (job_run j evs) < 3)"
proof (induction evs rule: rev_induct)
  case Nil
  from assms show ?case by (simp add: job_run_def)
next
  case (snoc ev evs)
  from job_step_bound [OF snoc, of ev] show ?case by (simp add: job_run_def)
qed

text \<open>
  C4. For every job of the queue, as the specification describes it: the attempts never decrease
  along a run of moves; every move takes the status forward, PENDING to PROCESSING and
  PROCESSING to DONE, PENDING (retry) or FAILED, or leaves it; a job that is DONE or FAILED is
  changed by no move; a failed execution with attempts < 3 returns the job to PENDING, and with
  attempts \<ge> 3 it sets FAILED, records the error, and no later move changes the job; a job
  that started at enqueue never has more than three attempts and is never PENDING with three.
\<close>

theorem job_status_moves_forward:
  "j_attempts j \<le> j_attempts (job_run j evs) \<and>
   forward (j_status j) (j_status (job_step j ev)) \<and>
   (j_status j1 = DONE \<or> j_status j1 = FAILED \<longrightarrow> job_run j1 evs = j1) \<and>
   (j_status j2 = PROCESSING \<and> j_attempts j2 < 3 \<longrightarrow>
      j_status (job_step j2 (Failed err now)) = PENDING \<and>
      j_attempts (job_step j2 (Failed err now)) = j_attempts j2) \<and>
   (j_status j3 = PROCESSING \<and> 3 \<le> j_attempts j3 \<longrightarrow>
      j_status (job_step j3 (Failed err now)) = FAILED \<and>
      j_lastError (job_step j3 (Failed err now)) = Some err \<and>
      job_run (job_step j3 (Failed err now)) evs = job_step j3 (Failed err now)) \<and>
   j_status (enqueue_job messageId now tbl) = PENDING \<and>
   j_attempts (enqueue_job messageId now tbl) = 0 \<and>
   j_attempts (job_run (enqueue_job messageId now tbl) evs) \<le> 3 \<and>
   (j_status (job_run (enqueue_job messageId now tbl) evs) = PENDING \<longrightarrow>
      j_attempts (job_run (enqueue_job messageId now tbl) evs) < 3)"
proof -
  have retry: "j_status j2 = PROCESSING \<and> j_attempts j2 < 3 \<longrightarrow>
      j_status (job_step j2 (Failed err now)) = PENDING \<and>
      j_attempts (job_step j2 (Failed err now)) = j_attempts j2"
    by (simp add: job_failed_def)
  have failed: "j_status j3 = PROCESSING \<and> 3 \<le> j_attempts j3 \<longrightarrow>
      j_status (job_step j3 (Failed err now)) = FAILED \<and>
      j_lastError (job_step j3 (Failed err now)) = Some err \<and>
      job_run (job_step j3 (Failed err now)) evs = job_step j3 (Failed err now)"
  proof
    assume a: "j_status j3 = PROCESSING \<and> 3 \<le> j_attempts j3"
    then have s: "j_status (job_step j3 (Failed err now)) = FAILED"
      by (simp add: job_failed_def)
    then have "job_run (job_step j3 (Failed err now)) evs = job_step j3 (Failed err now)"
      by (simp add: job_run_terminal)
    with a s show "j_status (job_step j3 (Failed err now)) = FAILED \<and>
      j_lastError (job_step j3 (Failed err now)) = Some err \<and>
      job_run (job_step j3 (Failed err now)) evs = job_step j3 (Failed err now)"
      by (simp add: job_failed_def)
  qed
  have terminal: "j_status j1 = DONE \<or> j_status j1 = FAILED \<longrightarrow> job_run j1 evs =
      j1"
    by (simp add: job_run_terminal)
  have start: "j_status (enqueue_job messageId now tbl) = PENDING \<and>
      j_attempts (enqueue_job messageId now tbl) = 0"
    by (simp add: enqueue_job_def)
  then have "j_attempts (enqueue_job messageId now tbl) \<le> 3 \<and>
      (j_status (enqueue_job messageId now tbl) = PENDING \<longrightarrow>
         j_attempts (enqueue_job messageId now tbl) < 3)"
    by simp
  then have bound: "j_attempts (job_run (enqueue_job messageId now tbl) evs) \<le> 3 \<and>
      (j_status (job_run (enqueue_job messageId now tbl) evs) = PENDING \<longrightarrow>
         j_attempts (job_run (enqueue_job messageId now tbl) evs) < 3)"
    by (rule job_run_bound)
  from job_run_attempts [of j evs] job_step_forward [of j ev] terminal retry failed start bound
  show ?thesis by (intro conjI) simp_all
qed

theorem job_status_moves_forward_witness:
  "job_run (enqueue_job ''m1'' 0 [])
     [Claim 1, Failed ''timeout'' 2, Claim 3, Failed ''timeout'' 4, Claim 5, Failed ''timeout'' 6,
      Claim 7, Succeeded 8] =
     \<lparr>j_id = 1, j_messageId = ''m1'', j_status = FAILED, j_attempts = 3,
      j_lastError = Some ''timeout'', j_createdAt = 0, j_updatedAt = 6\<rparr> \<and>
   job_run (enqueue_job ''m1'' 0 [])
     [Claim 1, Failed ''timeout'' 2, Claim 3, Failed ''timeout'' 4, Claim 5, Succeeded 6] =
     \<lparr>j_id = 1, j_messageId = ''m1'', j_status = DONE, j_attempts = 3,
      j_lastError = None, j_createdAt = 0, j_updatedAt = 6\<rparr> \<and>
   j_status (job_step \<lparr>j_id = 1, j_messageId = ''m1'', j_status = PROCESSING, j_attempts =
       2,
      j_lastError = None, j_createdAt = 0, j_updatedAt = 3\<rparr> (Failed ''timeout'' 6)) =
          PENDING \<and>
   j_status (job_step \<lparr>j_id = 1, j_messageId = ''m1'', j_status = PROCESSING, j_attempts =
       3,
      j_lastError = None, j_createdAt = 0, j_updatedAt = 5\<rparr> (Failed ''timeout'' 6)) =
          FAILED \<and>
   j_lastError (job_step \<lparr>j_id = 1, j_messageId = ''m1'', j_status = PROCESSING, j_attempts
       = 3,
      j_lastError = None, j_createdAt = 0, j_updatedAt = 5\<rparr> (Failed ''timeout'' 6)) =
     Some ''timeout'' \<and>
   job_run \<lparr>j_id = 1, j_messageId = ''m1'', j_status = FAILED, j_attempts = 3,
      j_lastError = Some ''timeout'', j_createdAt = 0, j_updatedAt = 6\<rparr> [Claim 7, Succeeded
          8] =
     \<lparr>j_id = 1, j_messageId = ''m1'', j_status = FAILED, j_attempts = 3,
      j_lastError = Some ''timeout'', j_createdAt = 0, j_updatedAt = 6\<rparr>"
  using job_status_moves_forward [where j = "enqueue_job ''m1'' 0 []"
      and evs = "[Claim 7, Succeeded 8]" and ev = "Claim 1"
      and ?j1.0 = "\<lparr>j_id = 1, j_messageId = ''m1'', j_status = FAILED, j_attempts = 3,
          j_lastError = Some ''timeout'', j_createdAt = 0, j_updatedAt = 6\<rparr>"
      and ?j2.0 = "\<lparr>j_id = 1, j_messageId = ''m1'', j_status = PROCESSING, j_attempts = 2,
          j_lastError = None, j_createdAt = 0, j_updatedAt = 3\<rparr>"
      and ?j3.0 = "\<lparr>j_id = 1, j_messageId = ''m1'', j_status = PROCESSING, j_attempts = 3,
          j_lastError = None, j_createdAt = 0, j_updatedAt = 5\<rparr>"
      and err = "''timeout''" and now = 6 and messageId = "''m1''" and tbl = "[]"]
  by (simp add: job_run_def enqueue_job_def claim_job_def job_succeeded_def job_failed_def)

end
